theory Spec2Isabelle
  imports Complex_Main "HOL-Library.Char_ord" "HOL-Library.List_Lexorder"
begin

section \<open>JSON values and JavaScript objects\<close>

text \<open>
  The request body is what \<^verbatim>\<open>express.json()\<close> parses: a JSON tree. A string is a list of
  code units (here the code units below 256), compared lexicographically by code unit, as
  JavaScript's \<^verbatim>\<open><\<close> on strings does. A number is kept as the real number it
  denotes; no operation of the program computes with one.

  An object is the list of its own enumerable properties in the order in which JavaScript
  enumerates them (\<^verbatim>\<open>Object.keys\<close>, \<^verbatim>\<open>JSON.stringify\<close>): the keys that are array
  indices first, in ascending numeric order, then every other key in the order of creation.
\<close>

datatype json =
    JNull
  | JBool bool
  | JNum real
  | JStr string
  | JArr "json list"
  | JObj "(string \<times> json) list"

subsection \<open>Property keys\<close>

definition is_digit :: "char \<Rightarrow> bool" where
  "is_digit c = (CHR ''0'' \<le> c \<and> c \<le> CHR ''9'')"

definition digit_val :: "char \<Rightarrow> nat" where
  "digit_val c = of_char c - of_char CHR ''0''"

definition index_val :: "string \<Rightarrow> nat" where
  "index_val s = foldl (\<lambda>n c. 10 * n + digit_val c) 0 s"

text \<open>
  An array index is a canonical numeric string (no sign, no leading zero) whose value is
  below \<open>2^32 - 1\<close>.
\<close>

definition is_array_index :: "string \<Rightarrow> bool" where
  "is_array_index s =
     (s \<noteq> [] \<and> list_all is_digit s \<and> (length s = 1 \<or> hd s \<noteq> CHR ''0'')
      \<and> index_val s < 2 ^ 32 - 1)"

text \<open>The decimal string of a number: the key of an array element or of a string's character.\<close>

function digits_of :: "nat \<Rightarrow> string" where
  "digits_of n =
     (if n < 10 then [''0123456789'' ! n]
      else digits_of (n div 10) @ [''0123456789'' ! (n mod 10)])"
  by pat_completeness auto
termination
  by (relation "measure id") auto

declare digits_of.simps [simp del]

definition index_key :: "nat \<Rightarrow> string" where
  "index_key n = digits_of n"

subsection \<open>Reading and writing properties\<close>

text \<open>
  \<^verbatim>\<open>o[k] = v\<close> on an ordinary object. An existing own property keeps its place. A new
  array-index key goes among the index keys by value; any other new key goes last. The key
  \<^verbatim>\<open>__proto__\<close> reaches the setter of \<^verbatim>\<open>Object.prototype\<close> instead: no own property is
  created.
\<close>

fun insert_index :: "string \<Rightarrow> 'v \<Rightarrow> (string \<times> 'v) list \<Rightarrow> (string \<times> 'v) list" where
  "insert_index k v [] = [(k, v)]"
| "insert_index k v (p # ps) =
     (if is_array_index (fst p) \<and> index_val (fst p) < index_val k
      then p # insert_index k v ps
      else (k, v) # p # ps)"

definition obj_set :: "string \<Rightarrow> 'v \<Rightarrow> (string \<times> 'v) list \<Rightarrow> (string \<times> 'v) list" where
  "obj_set k v obj =
     (if k = ''__proto__'' then obj
      else if k \<in> fst ` set obj then map (\<lambda>p. if fst p = k then (k, v) else p) obj
      else if is_array_index k then insert_index k v obj
      else obj @ [(k, v)])"

text \<open>
  The own enumerable properties of a value, as \<^verbatim>\<open>_.keys\<close> sees them (it coerces a
  non-object to an object): those of an object; the elements of an array; the characters of
  a string; none for \<^verbatim>\<open>null\<close>, a number or a boolean.
\<close>

fun own_properties :: "json \<Rightarrow> (string \<times> json) list" where
  "own_properties (JObj kvs) = kvs"
| "own_properties (JArr xs) = zip (map index_key [0..<length xs]) xs"
| "own_properties (JStr s) = zip (map index_key [0..<length s]) (map (\<lambda>c. JStr [c]) s)"
| "own_properties _ = []"

text \<open>\<^verbatim>\<open>_.keys(object)\<close>.\<close>

definition keys :: "json \<Rightarrow> string list" where
  "keys object = map fst (own_properties object)"

text \<open>
  \<^verbatim>\<open>object[key]\<close> on a value as it was parsed, \<open>None\<close> for \<^verbatim>\<open>undefined\<close>: an own
  property. On such a value the program reads keys that \<^verbatim>\<open>_.keys\<close> returned and the
  five field names of a submission, none of which \<^verbatim>\<open>Object.prototype\<close> defines. The
  reads of a record that \<^verbatim>\<open>sortObject\<close> has built follow its prototype: they are
  \<open>get_property\<close>, below.
\<close>

definition js_get :: "json \<Rightarrow> string \<Rightarrow> json option" where
  "js_get object key = map_of (own_properties object) key"

text \<open>\<^verbatim>\<open>typeof v === "object"\<close> holds of an object, an array and \<^verbatim>\<open>null\<close>.\<close>

fun typeof_object :: "json \<Rightarrow> bool" where
  "typeof_object JNull = True"
| "typeof_object (JArr xs) = True"
| "typeof_object (JObj kvs) = True"
| "typeof_object _ = False"

fun instanceof_Array :: "json \<Rightarrow> bool" where
  "instanceof_Array (JArr xs) = True"
| "instanceof_Array _ = False"

text \<open>\<^verbatim>\<open>_.sortBy(keys, key => key)\<close>: a stable ascending sort of the key strings.\<close>

definition sortBy_key :: "string list \<Rightarrow> string list" where
  "sortBy_key ks = sort ks"

section \<open>The canonicalizer: \<^verbatim>\<open>sortObject\<close>\<close>

lemma own_properties_size:
  "(k, v) \<in> set (own_properties object) \<Longrightarrow> typeof_object v \<Longrightarrow> size v < size object"
proof (cases object)
  case (JObj kvs)
  assume "(k, v) \<in> set (own_properties object)"
  with JObj have "(k, v) \<in> set kvs" by simp
  then have "size v < Suc (size_list (size_prod (\<lambda>_. 0) size) kvs)"
    by (induction kvs) auto
  with JObj show ?thesis by simp
next
  case (JArr xs)
  assume "(k, v) \<in> set (own_properties object)"
  with JArr have "v \<in> set xs" by (auto dest: set_zip_rightD)
  then have "size v < Suc (size_list size xs)"
    by (induction xs) auto
  with JArr show ?thesis by simp
next
  case (JStr s)
  assume "(k, v) \<in> set (own_properties object)" and "typeof_object v"
  with JStr show ?thesis by (auto dest!: set_zip_rightD)
qed simp_all

function sortObject :: "json \<Rightarrow> json" where
  "sortObject object =
     JObj (fold
       (\<lambda>key sortedObj.
          case js_get object key of
            None \<Rightarrow> sortedObj
          | Some v \<Rightarrow>
              if typeof_object v \<and> \<not> instanceof_Array v
              then obj_set key (sortObject v) sortedObj
              else obj_set key v sortedObj)
       (sortBy_key (keys object)) [])"
  by pat_completeness auto
termination
proof (relation "measure size")
  show "wf (measure size)" by simp
next
  fix object :: json and key sortedObj v
  assume "js_get object key = Some v" and "typeof_object v \<and> \<not> instanceof_Array v"
  then have "(key, v) \<in> set (own_properties object)" and "typeof_object v"
    by (auto simp: js_get_def dest: map_of_SomeD)
  then show "(v, object) \<in> measure size"
    by (simp add: own_properties_size)
qed

declare sortObject.simps [simp del]

section \<open>Validation errors\<close>

text \<open>
  \<^verbatim>\<open>TRequestFormatError\<close>, \<^verbatim>\<open>TBasicOffChainValidationError\<close> and
  \<^verbatim>\<open>TOnChainValidationError\<close> are one shape: a key and a message.
\<close>

record validation_error =
  key :: string
  message :: string

type_synonym TRequestFormatError = validation_error
type_synonym TBasicOffChainValidationError = validation_error
type_synonym TOnChainValidationError = validation_error

section \<open>The request shape validator\<close>

text \<open>
  What \<^verbatim>\<open>String.prototype.trim\<close> strips, among the code units below 256: tab, line feed,
  vertical tab, form feed, carriage return, space and no-break space.
\<close>

definition is_whitespace :: "char \<Rightarrow> bool" where
  "is_whitespace c =
     (c \<in> {CHR 0x09, CHR 0x0A, CHR 0x0B, CHR 0x0C, CHR 0x0D, CHR 0x20, CHR 0xA0})"

definition trim :: "string \<Rightarrow> string" where
  "trim s = rev (dropWhile is_whitespace (rev (dropWhile is_whitespace s)))"

text \<open>\<^verbatim>\<open>typeof value !== "string" || value.trim() === ""\<close>\<close>

fun isNullOrWhiteSpace :: "json option \<Rightarrow> bool" where
  "isNullOrWhiteSpace (Some (JStr s)) = (trim s = [])"
| "isNullOrWhiteSpace _ = True"

text \<open>\<^verbatim>\<open>!(data instanceof Array) || !data.length\<close>\<close>

fun not_nonempty_Array :: "json option \<Rightarrow> bool" where
  "not_nonempty_Array (Some (JArr xs)) = (xs = [])"
| "not_nonempty_Array _ = True"

definition validateRequestFormat :: "json \<Rightarrow> TRequestFormatError list" where
  "validateRequestFormat body =
     (let errs = [];
          errs = (if isNullOrWhiteSpace (js_get body ''token'')
                  then errs @ [\<lparr>key = ''token'', message = ''TODO''\<rparr>] else errs);
          errs = (if isNullOrWhiteSpace (js_get body ''subject'')
                  then errs @ [\<lparr>key = ''subject'', message = ''TODO''\<rparr>] else errs);
          errs = (if not_nonempty_Array (js_get body ''data'')
                  then errs @ [\<lparr>key = ''data'', message = ''TODO''\<rparr>] else errs);
          errs = (if isNullOrWhiteSpace (js_get body ''packedData'')
                  then errs @ [\<lparr>key = ''packedData'', message = ''TODO''\<rparr>] else errs);
          errs = (if isNullOrWhiteSpace (js_get body ''signature'')
                  then errs @ [\<lparr>key = ''signature'', message = ''TODO''\<rparr>] else errs)
      in errs)"

section \<open>Objects at run time\<close>

text \<open>
  The object that \<^verbatim>\<open>sortObject\<close> returns has more to it than the tree of its own
  properties: the assignment \<^verbatim>\<open>sortedObj["__proto__"] = v\<close> calls the setter of
  \<^verbatim>\<open>Object.prototype\<close>, which makes \<open>v\<close> the prototype of \<open>sortedObj\<close> when \<open>v\<close> is an
  object or an array and does nothing otherwise. A later read \<^verbatim>\<open>d.attester\<close> finds an
  own property first and follows the prototypes after. A value at run time is therefore a
  JSON value whose objects carry a prototype (\<open>None\<close> for \<^verbatim>\<open>Object.prototype\<close>).
\<close>

datatype jsvalue =
    VNull
  | VBool bool
  | VNum real
  | VStr string
  | VArr "jsvalue list"
  | VObj "(string \<times> jsvalue) list" "jsvalue option"

text \<open>A parsed JSON value as a value at run time: every object has the default prototype.\<close>

fun parsed_value :: "json \<Rightarrow> jsvalue" where
  "parsed_value JNull = VNull"
| "parsed_value (JBool b) = VBool b"
| "parsed_value (JNum n) = VNum n"
| "parsed_value (JStr s) = VStr s"
| "parsed_value (JArr xs) = VArr (map parsed_value xs)"
| "parsed_value (JObj kvs) = VObj (map (\<lambda>p. (fst p, parsed_value (snd p))) kvs) None"

text \<open>
  The tree of the own enumerable properties of a value: what \<^verbatim>\<open>_.keys\<close> and
  \<^verbatim>\<open>JSON.stringify\<close> see of it.
\<close>

fun tree_of :: "jsvalue \<Rightarrow> json" where
  "tree_of VNull = JNull"
| "tree_of (VBool b) = JBool b"
| "tree_of (VNum n) = JNum n"
| "tree_of (VStr s) = JStr s"
| "tree_of (VArr xs) = JArr (map tree_of xs)"
| "tree_of (VObj props proto) = JObj (map (\<lambda>p. (fst p, tree_of (snd p))) props)"

text \<open>
  \<^verbatim>\<open>v[name]\<close> for a name that neither \<^verbatim>\<open>Object.prototype\<close> nor \<^verbatim>\<open>Array.prototype\<close>
  defines and that is not \<^verbatim>\<open>length\<close> (the program reads \<^verbatim>\<open>attester\<close>,
  \<^verbatim>\<open>layer2Hash\<close> and \<^verbatim>\<open>tx\<close> of a record): an own property, or else the property of
  the prototype; \<open>None\<close> for \<^verbatim>\<open>undefined\<close>.
\<close>

fun get_property :: "jsvalue \<Rightarrow> string \<Rightarrow> jsvalue option" where
  "get_property (VObj props proto) name =
     (case map_of props name of
        Some v \<Rightarrow> Some v
      | None \<Rightarrow> (case proto of None \<Rightarrow> None | Some p \<Rightarrow> get_property p name))"
| "get_property (VArr xs) name = map_of (zip (map index_key [0..<length xs]) xs) name"
| "get_property _ name = None"

text \<open>
  \<^verbatim>\<open>sortObject\<close> once more, this time keeping the object it builds: the same loop, and the
  prototype that the assignment to \<^verbatim>\<open>__proto__\<close> leaves. The handler applies it to parsed
  JSON only.
\<close>

function sortObject_object :: "json \<Rightarrow> jsvalue" where
  "sortObject_object object =
     VObj
       (fold
         (\<lambda>key sortedObj.
            case js_get object key of
              None \<Rightarrow> sortedObj
            | Some v \<Rightarrow>
                if typeof_object v \<and> \<not> instanceof_Array v
                then obj_set key (sortObject_object v) sortedObj
                else obj_set key (parsed_value v) sortedObj)
         (sortBy_key (keys object)) [])
       (case js_get object ''__proto__'' of
          None \<Rightarrow> None
        | Some v \<Rightarrow>
            if typeof_object v \<and> \<not> instanceof_Array v then Some (sortObject_object v)
            else if instanceof_Array v then Some (parsed_value v)
            else None)"
  by pat_completeness auto
termination
proof (relation "measure size")
  show "wf (measure size)" by simp
next
  fix object :: json and key :: string and sortedObj :: "(string \<times> jsvalue) list" and v
  assume "js_get object key = Some v" and "typeof_object v \<and> \<not> instanceof_Array v"
  then have "(key, v) \<in> set (own_properties object)" and "typeof_object v"
    by (auto simp: js_get_def dest: map_of_SomeD)
  then show "(v, object) \<in> measure size"
    by (simp add: own_properties_size)
next
  fix object :: json and v
  assume "js_get object ''__proto__'' = Some v" and "typeof_object v \<and> \<not> instanceof_Array v"
  then have "(''__proto__'', v) \<in> set (own_properties object)" and "typeof_object v"
    by (auto simp: js_get_def dest: map_of_SomeD)
  then show "(v, object) \<in> measure size"
    by (simp add: own_properties_size)
qed

declare sortObject_object.simps [simp del]

section \<open>External collaborators\<close>

text \<open>
  The functions the program imports from other packages, and its configuration, are
  parameters: hex decoding and signer recovery (\<^verbatim>\<open>share-kit\<close>, \<^verbatim>\<open>attestations-lib\<close>),
  keccak-256 (\<^verbatim>\<open>js-sha3\<close>), \<^verbatim>\<open>JSON.stringify\<close>, the off-chain integrity check
  (\<^verbatim>\<open>share-kit\<close>), the receipt fetch (\<^verbatim>\<open>web3x\<close>) and the log decoder
  (\<^verbatim>\<open>abi-decoder\<close>). The program calls them unguarded, and a call of a library may
  throw (the signer recovery does on a signature of the wrong length): such a result is
  \<open>None\<close>. \<^verbatim>\<open>JSON.stringify\<close> reads the own enumerable properties of its argument and
  nothing else of it, so it is given their tree; on such a tree it returns, and so does
  keccak-256 on a string.
\<close>

type_synonym Buffer = "nat list"

record RawLog =
  raw_address :: string
  raw_topics :: "string list"
  raw_data :: string

record IDecodedLogEvent =
  event_name :: string
  event_type :: string
  event_value :: string

record TDecodedLog =
  log_address :: string
  log_name :: string
  log_events :: "IDecodedLogEvent list"

record externals =
  toBuffer :: "string \<Rightarrow> Buffer option"
  recoverHashSigner :: "Buffer \<Rightarrow> string \<Rightarrow> string option"
  keccak256 :: "string \<Rightarrow> string"
  JSON_stringify :: "json \<Rightarrow> string"
  verifyOffChainDataIntegrity :: "jsvalue \<Rightarrow> validation_error list option"
  getTransactionReceipt :: "string \<Rightarrow> jsvalue option \<Rightarrow> RawLog list option"
  decodeLogs :: "RawLog list \<Rightarrow> TDecodedLog list option"
  provider :: string

section \<open>The off-chain identity validator\<close>

text \<open>
  \<^verbatim>\<open>ResponseData\<close>, the type of a submission whose shape has been validated, over the
  type of its records: JSON trees as they are parsed, objects at run time once they are
  canonicalized. Nothing checks the fields of a record.
\<close>

record 'd ResponseData =
  token :: string
  subject :: string
  data :: "'d list"
  packedData :: string
  signature :: string

text \<open>
  A call that throws leaves the validator at once: \<open>None\<close>, and no list of errors. The
  arguments of the recovery are evaluated first, the recovery next, the hash check last.
\<close>

definition validateBasicOffChainProperties ::
    "externals \<Rightarrow> jsvalue ResponseData \<Rightarrow> TBasicOffChainValidationError list option" where
  "validateBasicOffChainProperties ext shareKitResData =
     (case toBuffer ext (packedData shareKitResData) of
        None \<Rightarrow> None
      | Some buffer \<Rightarrow>
         (case recoverHashSigner ext buffer (signature shareKitResData) of
            None \<Rightarrow> None
          | Some signerEthAddress \<Rightarrow>
             (let errs = [];
                  errs = (if subject shareKitResData \<noteq> signerEthAddress
                          then errs @ [\<lparr>key = ''subject'', message = ''TODO''\<rparr>] else errs);
                  recoveredPackedData =
                    ''0x'' @ keccak256 ext (JSON_stringify ext
                      (JObj [(''data'', JArr (map tree_of (data shareKitResData))),
                             (''token'', JStr (token shareKitResData))]));
                  errs = (if recoveredPackedData \<noteq> packedData shareKitResData
                          then errs @ [\<lparr>key = ''packedData'', message = ''TODO''\<rparr>] else errs)
              in Some errs)))"

section \<open>Transaction logs\<close>

definition getDecodedTxEventLogs ::
    "externals \<Rightarrow> string \<Rightarrow> jsvalue option \<Rightarrow> TDecodedLog list option" where
  "getDecodedTxEventLogs ext prov txHash =
     (case getTransactionReceipt ext prov txHash of
        None \<Rightarrow> None
      | Some receipt_logs \<Rightarrow> decodeLogs ext receipt_logs)"

text \<open>\<^verbatim>\<open>event && event.value\<close>, \<open>None\<close> for \<^verbatim>\<open>undefined\<close>.\<close>

definition getDecodedLogValueByName :: "TDecodedLog \<Rightarrow> string \<Rightarrow> string option" where
  "getDecodedLogValueByName decodedLog nm =
     (case find (\<lambda>e. event_name e = nm) (log_events decodedLog) of
        None \<Rightarrow> None
      | Some event \<Rightarrow> Some (event_value event))"

section \<open>The on-chain cross-validator\<close>

record TDecodedLogsAndData =
  shareData :: jsvalue
  logs :: "TDecodedLog list"

text \<open>
  \<^verbatim>\<open>a !== b\<close> for a value or \<^verbatim>\<open>undefined\<close> on the left and a string or
  \<^verbatim>\<open>undefined\<close> on the right.
\<close>

definition strict_neq :: "jsvalue option \<Rightarrow> string option \<Rightarrow> bool" where
  "strict_neq a b = (a \<noteq> map_option VStr b)"

text \<open>The body of the \<^verbatim>\<open>forEach\<close> callback: the errors so far, and one pair.\<close>

definition validate_pair ::
    "string \<Rightarrow> TDecodedLogsAndData \<Rightarrow> TOnChainValidationError list
      \<Rightarrow> TOnChainValidationError list" where
  "validate_pair subj dl errs =
     (case find (\<lambda>l. log_name l = ''TraitAttested'') (logs dl) of
        None \<Rightarrow> errs @ [\<lparr>key = ''TraitAttested'', message = ''TODO''\<rparr>]
      | Some traitAttestedLogs \<Rightarrow>
          (let onChainSubjectAddress = getDecodedLogValueByName traitAttestedLogs ''subject'';
               errs = (if Some subj \<noteq> onChainSubjectAddress
                       then errs @ [\<lparr>key = ''subject'', message = ''TODO''\<rparr>] else errs);
               onChainAttesterAddress = getDecodedLogValueByName traitAttestedLogs ''attester'';
               errs = (if strict_neq (get_property (shareData dl) ''attester'')
                            onChainAttesterAddress
                       then errs @ [\<lparr>key = ''attester'', message = ''TODO''\<rparr>] else errs);
               onChainDataHash = getDecodedLogValueByName traitAttestedLogs ''dataHash'';
               errs = (if strict_neq (get_property (shareData dl) ''layer2Hash'') onChainDataHash
                       then errs @ [\<lparr>key = ''layer2Hash'', message = ''TODO''\<rparr>] else errs)
           in errs))"

definition validateOnChainProperties ::
    "string \<Rightarrow> TDecodedLogsAndData list \<Rightarrow> TOnChainValidationError list" where
  "validateOnChainProperties subj decodedLogsAndData =
     fold (validate_pair subj) decodedLogsAndData []"

section \<open>The request handler: \<^verbatim>\<open>POST /api/receive\<close>\<close>

text \<open>
  One result of the per-record integrity stage: \<^verbatim>\<open>{layer2Hash: d.layer2Hash, errors}\<close>.
\<close>

record offChainVerification =
  layer2Hash :: "jsvalue option"
  errors :: "validation_error list"

text \<open>
  The body the handler sends: \<^verbatim>\<open>{errors: [...]}\<close> with a list of validation errors or of
  per-record results, or \<^verbatim>\<open>{success: true, token: req.body.token}\<close>.
\<close>

datatype response_body =
    Errors "validation_error list"
  | RecordErrors "offChainVerification list"
  | Success "json option"

datatype stage =
    RequestFormat
  | Canonicalize
  | BasicOffChain
  | OffChainIntegrity
  | FetchLogs
  | OnChain

text \<open>
  What a request comes to: the status and body sent (\<open>None\<close> when the handler's promise is
  rejected, by a call that throws or a fetch that fails, and it sends nothing), and the
  stages whose code ran, in order.
\<close>

record outcome =
  response :: "(nat \<times> response_body) option"
  stages :: "stage list"

text \<open>
  The code of a stage is run through \<open>run_stage\<close>, which hands on its result and notes the
  stage after those that ran before: the list of stages is built as the stages run.
\<close>

definition run_stage :: "stage \<Rightarrow> 'a \<Rightarrow> stage list \<Rightarrow> 'a \<times> stage list" where
  "run_stage st result sofar = (result, sofar @ [st])"

text \<open>
  \<^verbatim>\<open>sortObject(req.body)\<close> read at the type \<^verbatim>\<open>ResponseData\<close>. The shape validator has
  passed when this runs, so the five fields are own properties of the body and of the sorted
  body; \<open>None\<close> is the \<^verbatim>\<open>TypeError\<close> of \<^verbatim>\<open>shareKitResData.data.map\<close> otherwise.
\<close>

definition as_ResponseData :: "json \<Rightarrow> json ResponseData option" where
  "as_ResponseData j =
     (case js_get j ''token'' of Some (JStr t) \<Rightarrow>
       (case js_get j ''subject'' of Some (JStr s) \<Rightarrow>
         (case js_get j ''data'' of Some (JArr d) \<Rightarrow>
           (case js_get j ''packedData'' of Some (JStr p) \<Rightarrow>
             (case js_get j ''signature'' of Some (JStr g) \<Rightarrow>
                Some \<lparr>token = t, subject = s, data = d, packedData = p, signature = g\<rparr>
              | _ \<Rightarrow> None)
            | _ \<Rightarrow> None)
          | _ \<Rightarrow> None)
        | _ \<Rightarrow> None)
      | _ \<Rightarrow> None)"

text \<open>
  The canonical form of a submission: \<^verbatim>\<open>sortObject(req.body)\<close>, then
  \<^verbatim>\<open>data = data.map(d => sortObject(d))\<close>. The elements of \<open>data\<close> are still as they
  were parsed (\<^verbatim>\<open>sortObject\<close> stores a sequence unchanged), and each becomes the object
  that \<^verbatim>\<open>sortObject\<close> builds of it.
\<close>

definition canonicalize :: "json \<Rightarrow> jsvalue ResponseData option" where
  "canonicalize body =
     (case as_ResponseData (sortObject body) of
        None \<Rightarrow> None
      | Some sortedBody \<Rightarrow>
          Some \<lparr>token = token sortedBody, subject = subject sortedBody,
                data = map sortObject_object (data sortedBody),
                packedData = packedData sortedBody, signature = signature sortedBody\<rparr>)"

text \<open>
  \<^verbatim>\<open>data.map(d => ({layer2Hash: d.layer2Hash, errors: verifyOffChainDataIntegrity(d)}))\<close>:
  a result for each record, in order; a call that throws leaves the handler.
\<close>

definition offChainVerifications ::
    "externals \<Rightarrow> jsvalue list \<Rightarrow> offChainVerification list option" where
  "offChainVerifications ext ds =
     those (map (\<lambda>d. case verifyOffChainDataIntegrity ext d of
                        None \<Rightarrow> None
                      | Some errs \<Rightarrow>
                          Some \<lparr>layer2Hash = get_property d ''layer2Hash'', errors = errs\<rparr>) ds)"

text \<open>
  The fetches of \<^verbatim>\<open>Promise.all(data.map(async shareData => ...))\<close> start in the order of
  \<open>data\<close>, and each callback pushes its pair when its own fetch completes: the pairs stand in
  \<open>decodedDataAndLogs\<close> in the order of completion. \<open>completion\<close> lists the indices of the
  records in that order, a permutation of \<open>[0..<length data]\<close>. One failed fetch rejects the
  handler's promise.
\<close>

definition fetch_all ::
    "externals \<Rightarrow> nat list \<Rightarrow> jsvalue list \<Rightarrow> TDecodedLogsAndData list option" where
  "fetch_all ext completion ds =
     (case those (map (\<lambda>d. getDecodedTxEventLogs ext (provider ext) (get_property d ''tx'')) ds)
      of
        None \<Rightarrow> None
      | Some fetched \<Rightarrow>
          Some (map (\<lambda>i. \<lparr>shareData = ds ! i, logs = fetched ! i\<rparr>) completion))"

definition receive :: "externals \<Rightarrow> nat list \<Rightarrow> json \<Rightarrow> outcome" where
  "receive ext completion body =
     (case run_stage RequestFormat (validateRequestFormat body) [] of
        (reqFormatValidation, sofar) \<Rightarrow>
      if reqFormatValidation \<noteq> [] then
        \<lparr>response = Some (400, Errors reqFormatValidation), stages = sofar\<rparr>
      else
      case run_stage Canonicalize (canonicalize body) sofar of
        (None, sofar) \<Rightarrow> \<lparr>response = None, stages = sofar\<rparr>
      | (Some shareKitResData, sofar) \<Rightarrow>
      case run_stage BasicOffChain (validateBasicOffChainProperties ext shareKitResData) sofar of
        (None, sofar) \<Rightarrow> \<lparr>response = None, stages = sofar\<rparr>
      | (Some basicOffChainValidation, sofar) \<Rightarrow>
      if basicOffChainValidation \<noteq> [] then
        \<lparr>response = Some (400, Errors basicOffChainValidation), stages = sofar\<rparr>
      else
      case run_stage OffChainIntegrity
             (offChainVerifications ext (data shareKitResData)) sofar of
        (None, sofar) \<Rightarrow> \<lparr>response = None, stages = sofar\<rparr>
      | (Some verifications, sofar) \<Rightarrow>
      if \<not> list_all (\<lambda>v. length (errors v) = 0) verifications then
        \<lparr>response = Some (400, RecordErrors verifications), stages = sofar\<rparr>
      else
      case run_stage FetchLogs (fetch_all ext completion (data shareKitResData)) sofar of
        (None, sofar) \<Rightarrow> \<lparr>response = None, stages = sofar\<rparr>
      | (Some decodedDataAndLogs, sofar) \<Rightarrow>
      case run_stage OnChain
             (validateOnChainProperties (subject shareKitResData) decodedDataAndLogs) sofar of
        (onChainVerifications, sofar) \<Rightarrow>
      if onChainVerifications \<noteq> [] then
        \<lparr>response = Some (400, Errors onChainVerifications), stages = sofar\<rparr>
      else
        \<lparr>response = Some (200, Success (js_get body ''token'')), stages = sofar\<rparr>)"

section \<open>An instance of the external functions\<close>

text \<open>
  Concrete stand-ins for the collaborators, used where a statement is instantiated. The hex
  decoder throws on a string that is not \<open>0x\<close> and hex digits. The signer recovery throws
  on a signature that is not six characters long (the real one wants 65 bytes); it knows
  four signatures, each made by \<open>0xA1\<close>, and recovers \<open>0x00\<close> from anything else. The
  encoder writes the properties of an object in their order, and a checksum (the length of
  its input) stands for keccak-256. The integrity check accepts every record that has a
  \<open>layer2Hash\<close> and throws on one that has none. The chain has three transactions, and
  the decoder knows one event, \<open>TraitAttested\<close>, and omits every other log.
\<close>

fun hex_val :: "char \<Rightarrow> nat" where
  "hex_val c =
     (if CHR ''0'' \<le> c \<and> c \<le> CHR ''9'' then of_char c - of_char CHR ''0''
      else if CHR ''a'' \<le> c \<and> c \<le> CHR ''f'' then of_char c - of_char CHR ''a'' + 10
      else if CHR ''A'' \<le> c \<and> c \<le> CHR ''F'' then of_char c - of_char CHR ''A'' + 10
      else 0)"

definition is_hex :: "char \<Rightarrow> bool" where
  "is_hex c =
     ((CHR ''0'' \<le> c \<and> c \<le> CHR ''9'') \<or> (CHR ''a'' \<le> c \<and> c \<le> CHR ''f'')
      \<or> (CHR ''A'' \<le> c \<and> c \<le> CHR ''F''))"

fun hex_bytes :: "string \<Rightarrow> nat list" where
  "hex_bytes (a # b # rest) = (16 * hex_val a + hex_val b) # hex_bytes rest"
| "hex_bytes _ = []"

definition example_toBuffer :: "string \<Rightarrow> Buffer option" where
  "example_toBuffer s =
     (if take 2 s = ''0x'' \<and> list_all is_hex (drop 2 s) then Some (hex_bytes (drop 2 s))
      else None)"

fun example_stringify :: "json \<Rightarrow> string" where
  "example_stringify JNull = ''null''"
| "example_stringify (JBool b) = (if b then ''true'' else ''false'')"
| "example_stringify (JNum n) = (if n < 0 then ''-'' else []) @ digits_of (nat \<lfloor>\<bar>n\<bar>\<rfloor>)"
| "example_stringify (JStr s) = [CHR 0x22] @ s @ [CHR 0x22]"
| "example_stringify (JArr xs) = ''['' @ concat (map (\<lambda>x. example_stringify x @ '','') xs) @ '']''"
| "example_stringify (JObj kvs) =
     ''{'' @ concat (map (\<lambda>(k, v). k @ '':'' @ example_stringify v @ '','') kvs) @ ''}''"

definition example_hash :: "string \<Rightarrow> string" where
  "example_hash s = digits_of (length s)"

definition example_decode :: "RawLog \<Rightarrow> TDecodedLog" where
  "example_decode raw =
     \<lparr>log_address = raw_address raw,
      log_name = hd (raw_topics raw),
      log_events =
        [\<lparr>event_name = ''subject'', event_type = ''address'', event_value = raw_topics raw ! 1\<rparr>,
         \<lparr>event_name = ''attester'', event_type = ''address'', event_value = raw_topics raw ! 2\<rparr>,
         \<lparr>event_name = ''dataHash'', event_type = ''bytes32'', event_value = raw_data raw\<rparr>]\<rparr>"

definition example_chain :: "(string \<times> RawLog list) list" where
  "example_chain =
     [(''0xT1'', [\<lparr>raw_address = ''0xC0'', raw_topics = [''TraitAttested'', ''0xA1'', ''0xB2''],
                  raw_data = ''0xD1''\<rparr>]),
      (''0xT2'', [\<lparr>raw_address = ''0xC0'', raw_topics = [''TraitAttested'', ''0xA1'', ''0xB3''],
                  raw_data = ''0xD2''\<rparr>]),
      (''0xT3'', [\<lparr>raw_address = ''0xC0'', raw_topics = [''Transfer'', ''0xA1'', ''0xB2''],
                  raw_data = ''0xD3''\<rparr>])]"

definition example_signatures :: "((Buffer \<times> string) \<times> string) list" where
  "example_signatures =
     [(([0x69], ''0x5167''), ''0xA1''),
      (([0x68], ''0x7a3c''), ''0xA1''),
      (([0x11], ''0x9b41''), ''0xA1''),
      (([0x53], ''0x3e08''), ''0xA1'')]"

definition example_externals :: externals where
  "example_externals =
     \<lparr>toBuffer = example_toBuffer,
      recoverHashSigner =
        (\<lambda>buf sig. if length sig \<noteq> 6 then None
                    else case map_of example_signatures (buf, sig) of
                           Some signer \<Rightarrow> Some signer | None \<Rightarrow> Some ''0x00''),
      keccak256 = example_hash,
      JSON_stringify = example_stringify,
      verifyOffChainDataIntegrity =
        (\<lambda>d. case get_property d ''layer2Hash'' of None \<Rightarrow> None | Some h \<Rightarrow> Some []),
      getTransactionReceipt =
        (\<lambda>prov tx. case tx of Some (VStr h) \<Rightarrow> map_of example_chain h | _ \<Rightarrow> None),
      decodeLogs =
        (\<lambda>raws. Some (map example_decode
           (filter (\<lambda>raw. raw_topics raw \<noteq> [] \<and> hd (raw_topics raw) \<in> {''TraitAttested''})
              raws))),
      provider = ''http://localhost:8545''\<rparr>"

definition example_body :: json where
  "example_body =
     JObj [(''token'', JStr ''t-1''), (''subject'', JStr ''0xA1''),
           (''signature'', JStr ''0x5167''), (''packedData'', JStr ''0x69''),
           (''data'', JArr [JObj [(''tx'', JStr ''0xT1''), (''layer2Hash'', JStr ''0xD1''),
                                   (''attester'', JStr ''0xB2'')]])]"

definition example_body2 :: json where
  "example_body2 =
     JObj [(''token'', JStr ''t-2''), (''subject'', JStr ''0xA1''),
           (''signature'', JStr ''0x9b41''), (''packedData'', JStr ''0x116''),
           (''data'', JArr [JObj [(''tx'', JStr ''0xT3''), (''layer2Hash'', JStr ''0xD3''),
                                   (''attester'', JStr ''0xB2'')],
                            JObj [(''tx'', JStr ''0xT2''), (''layer2Hash'', JStr ''0xD2''),
                                   (''attester'', JStr ''0xB2'')]])]"

text \<open>
  A request whose record has no \<open>attester\<close> of its own and names one through
  \<^verbatim>\<open>__proto__\<close>, and a request whose signature is too short for the recovery.
\<close>

definition example_body3 :: json where
  "example_body3 =
     JObj [(''token'', JStr ''t-3''), (''subject'', JStr ''0xA1''),
           (''signature'', JStr ''0x3e08''), (''packedData'', JStr ''0x53''),
           (''data'', JArr [JObj [(''tx'', JStr ''0xT1''), (''layer2Hash'', JStr ''0xD1''),
                                   (''__proto__'', JObj [(''attester'', JStr ''0xB2'')])]])]"

definition example_body4 :: json where
  "example_body4 =
     JObj [(''token'', JStr ''t-1''), (''subject'', JStr ''0xA1''),
           (''signature'', JStr ''0x51''), (''packedData'', JStr ''0x70''),
           (''data'', JArr [JObj [(''tx'', JStr ''0xT1''), (''layer2Hash'', JStr ''0xD1''),
                                   (''attester'', JStr ''0xB2'')]])]"

text \<open>The canonical form of \<open>example_body\<close>, and its record with the logs of its transaction.\<close>

definition example_submission :: "jsvalue ResponseData" where
  "example_submission =
     \<lparr>token = ''t-1'', subject = ''0xA1'',
      data = [VObj [(''attester'', VStr ''0xB2''), (''layer2Hash'', VStr ''0xD1''),
                    (''tx'', VStr ''0xT1'')] None],
      packedData = ''0x69'', signature = ''0x5167''\<rparr>"

definition example_pairs :: "TDecodedLogsAndData list" where
  "example_pairs =
     [\<lparr>shareData = VObj [(''attester'', VStr ''0xB2''), (''layer2Hash'', VStr ''0xD1''),
                          (''tx'', VStr ''0xT1'')] None,
       logs = [\<lparr>log_address = ''0xC0'', log_name = ''TraitAttested'',
                log_events =
                  [\<lparr>event_name = ''subject'', event_type = ''address'', event_value = ''0xA1''\<rparr>,
                   \<lparr>event_name = ''attester'', event_type = ''address'', event_value = ''0xB2''\<rparr>,
                   \<lparr>event_name = ''dataHash'', event_type = ''bytes32'',
                    event_value = ''0xD1''\<rparr>]\<rparr>]\<rparr>]"

section \<open>Definitions for the statements\<close>

text \<open>Two strings of one length that differ at exactly one position.\<close>

definition one_byte_changed :: "string \<Rightarrow> string \<Rightarrow> bool" where
  "one_byte_changed a b =
     (length a = length b \<and> length (filter (\<lambda>(x, y). x \<noteq> y) (zip a b)) = 1)"

text \<open>
  The order in which JavaScript enumerates the keys \<open>sortObject\<close> assigns: an array index
  before any other key, array indices by value, other keys as strings.
\<close>

definition js_key_le :: "string \<Rightarrow> string \<Rightarrow> bool" where
  "js_key_le a b =
     (if is_array_index a then (if is_array_index b then index_val a \<le> index_val b else True)
      else (\<not> is_array_index b \<and> a \<le> b))"

text \<open>
  Every mapping that is reached through mappings only has its keys in that order. Nothing is
  asked of a sequence or of what is inside one.
\<close>

fun mappings_canonical :: "json \<Rightarrow> bool" where
  "mappings_canonical (JObj kvs) =
     (sorted_wrt js_key_le (map fst kvs) \<and> list_all (\<lambda>p. mappings_canonical (snd p)) kvs)"
| "mappings_canonical _ = True"

text \<open>What \<open>sortObject\<close> stores for a property whose value is \<open>v\<close>.\<close>

definition stored :: "json \<Rightarrow> json" where
  "stored v = (if typeof_object v \<and> \<not> instanceof_Array v then sortObject v else v)"

text \<open>One step of the loop of \<open>sortObject\<close>, for the values \<open>g\<close> gives the keys.\<close>

definition assign ::
    "(string \<Rightarrow> 'v option) \<Rightarrow> string \<Rightarrow> (string \<times> 'v) list \<Rightarrow> (string \<times> 'v) list" where
  "assign g k obj = (case g k of None \<Rightarrow> obj | Some v \<Rightarrow> obj_set k v obj)"

text \<open>The keys in the order in which \<open>sortObject\<close> assigns them, each once.\<close>

definition assigned_keys :: "string set \<Rightarrow> string list" where
  "assigned_keys K = sorted_list_of_set (K - {''__proto__''})"

text \<open>
  The rules of the request shape validator in the specification's words: a field is
  non-blank when it is a string with a character that is not whitespace; \<open>data\<close> is a
  non-empty sequence.
\<close>

fun non_blank :: "json option \<Rightarrow> bool" where
  "non_blank (Some (JStr s)) = (\<exists>c \<in> set s. \<not> is_whitespace c)"
| "non_blank _ = False"

fun non_empty_sequence :: "json option \<Rightarrow> bool" where
  "non_empty_sequence (Some (JArr xs)) = (xs \<noteq> [])"
| "non_empty_sequence _ = False"

definition shape_rule :: "string \<Rightarrow> json \<Rightarrow> bool" where
  "shape_rule k body =
     (if k = ''data'' then non_empty_sequence (js_get body k) else non_blank (js_get body k))"

text \<open>What the loop of \<open>sortObject_object\<close> stores for a property whose value is \<open>v\<close>.\<close>

definition stored_object :: "json \<Rightarrow> jsvalue" where
  "stored_object v =
     (if typeof_object v \<and> \<not> instanceof_Array v then sortObject_object v else parsed_value v)"










section \<open>Assignments to an object\<close>

lemma keys_update_same:
  "map fst (map (\<lambda>p. if fst p = k then (k, v) else p) obj) = map fst obj"
  by (induction obj) auto

lemma keys_insert_index:
  "set (map fst (insert_index k v obj)) = insert k (set (map fst obj))"
  by (induction obj) auto

lemma obj_set_proto: "obj_set ''__proto__'' v obj = obj"
  by (simp add: obj_set_def)

lemma obj_set_old:
  "k \<noteq> ''__proto__'' \<Longrightarrow> k \<in> fst ` set obj \<Longrightarrow>
   obj_set k v obj = map (\<lambda>p. if fst p = k then (k, v) else p) obj"
  by (simp add: obj_set_def)

lemma obj_set_new:
  "k \<noteq> ''__proto__'' \<Longrightarrow> k \<notin> fst ` set obj \<Longrightarrow>
   obj_set k v obj = (if is_array_index k then insert_index k v obj else obj @ [(k, v)])"
  by (simp add: obj_set_def)

lemma keys_obj_set:
  "set (map fst (obj_set k v obj)) =
     (if k = ''__proto__'' then set (map fst obj) else insert k (set (map fst obj)))"
proof (cases "k = ''__proto__''")
  case True
  then show ?thesis by (simp add: obj_set_proto)
next
  case np: False
  show ?thesis
  proof (cases "k \<in> fst ` set obj")
    case True
    then have "insert k (set (map fst obj)) = set (map fst obj)" by auto
    then show ?thesis
      using np by (simp only: obj_set_old [OF np True] keys_update_same if_False)
  next
    case False
    show ?thesis
      using np by (simp add: obj_set_new [OF np False] keys_insert_index del: set_map)
  qed
qed

lemma map_of_update_same:
  "map_of (map (\<lambda>p. if fst p = k then (k, v) else p) obj) k' =
     (if k' = k then map_option (\<lambda>_. v) (map_of obj k) else map_of obj k')"
  by (induction obj) auto

lemma map_of_insert_index:
  "map_of obj k = None \<Longrightarrow>
   map_of (insert_index k v obj) k' = (if k' = k then Some v else map_of obj k')"
  by (induction obj) (auto split: if_splits)

lemma map_of_snoc:
  "map_of obj k = None \<Longrightarrow>
   map_of (obj @ [(k, v)]) k' = (if k' = k then Some v else map_of obj k')"
  by (cases "map_of obj k'") (auto simp add: map_add_def)

lemma map_of_obj_set:
  "map_of (obj_set k v obj) k' =
     (if k = ''__proto__'' then map_of obj k'
      else if k' = k then Some v else map_of obj k')"
proof (cases "k = ''__proto__''")
  case True
  then show ?thesis by (simp add: obj_set_proto)
next
  case np: False
  show ?thesis
  proof (cases "k \<in> fst ` set obj")
    case True
    then obtain w where "map_of obj k = Some w"
      using map_of_eq_None_iff [of obj k] by auto
    then show ?thesis
      using np by (simp add: obj_set_old [OF np True] map_of_update_same)
  next
    case False
    then have none: "map_of obj k = None"
      by (simp add: map_of_eq_None_iff)
    show ?thesis
      using np none
      by (simp add: obj_set_new [OF np False] map_of_insert_index map_of_snoc
          del: map_of_append)
  qed
qed

lemma distinct_insert_index:
  "k \<notin> set (map fst obj) \<Longrightarrow> distinct (map fst obj) \<Longrightarrow>
   distinct (map fst (insert_index k v obj))"
proof (induction obj)
  case Nil
  then show ?case by simp
next
  case (Cons p ps)
  have "fst p \<notin> set (map fst (insert_index k v ps))"
    using Cons.prems by (simp only: keys_insert_index) auto
  with Cons show ?case by auto
qed

lemma distinct_obj_set:
  "distinct (map fst obj) \<Longrightarrow> distinct (map fst (obj_set k v obj))"
proof (cases "k = ''__proto__''")
  case True
  then show "distinct (map fst obj) \<Longrightarrow> ?thesis" by (simp add: obj_set_proto)
next
  case np: False
  assume d: "distinct (map fst obj)"
  show ?thesis
  proof (cases "k \<in> fst ` set obj")
    case True
    show ?thesis
      using d by (simp only: obj_set_old [OF np True] keys_update_same)
  next
    case False
    then have "k \<notin> set (map fst obj)" by simp
    then show ?thesis
      using d False by (simp add: obj_set_new [OF np False] distinct_insert_index)
  qed
qed

lemma obj_set_twice: "obj_set k v (obj_set k v obj) = obj_set k v obj"
proof (cases "k = ''__proto__''")
  case True
  then show ?thesis by (simp add: obj_set_proto)
next
  case np: False
  have "k \<in> set (map fst (obj_set k v obj))"
    using np by (simp only: keys_obj_set) simp
  then have mem: "k \<in> fst ` set (obj_set k v obj)" by simp
  have all: "\<forall>p \<in> set (obj_set k v obj). fst p = k \<longrightarrow> p = (k, v)"
  proof (cases "k \<in> fst ` set obj")
    case True
    show ?thesis by (auto simp add: obj_set_old [OF np True])
  next
    case nin: False
    have "\<forall>p \<in> set (insert_index k v obj). fst p = k \<longrightarrow> p = (k, v)"
      using nin by (induction obj) auto
    then show ?thesis using nin by (auto simp add: obj_set_new [OF np nin])
  qed
  have "map (\<lambda>p. if fst p = k then (k, v) else p) (obj_set k v obj) = obj_set k v obj"
    using all by (simp add: map_idI)
  then show ?thesis
    by (simp add: obj_set_old [OF np mem])
qed

section \<open>The loop of \<open>sortObject\<close>\<close>

lemma sortObject_fold:
  "sortObject x = JObj (fold (assign (\<lambda>k. map_option stored (js_get x k))) (sort (keys x)) [])"
proof -
  have "(case js_get x k of None \<Rightarrow> acc
         | Some v \<Rightarrow> if typeof_object v \<and> \<not> instanceof_Array v
                     then obj_set k (sortObject v) acc else obj_set k v acc)
        = assign (\<lambda>k. map_option stored (js_get x k)) k acc" for k acc
    by (cases "js_get x k") (simp_all add: assign_def stored_def)
  then show ?thesis
    by (subst sortObject.simps) (simp add: sortBy_key_def)
qed

lemma assign_twice: "assign g k (assign g k obj) = assign g k obj"
  by (cases "g k") (simp_all add: assign_def obj_set_twice)

lemma assign_proto: "assign g ''__proto__'' obj = obj"
  by (cases "g ''__proto__''") (simp_all add: assign_def obj_set_proto)

lemma fold_assign_cong:
  "(\<And>k. k \<in> set ks \<Longrightarrow> g k = h k) \<Longrightarrow> fold (assign g) ks obj = fold (assign h) ks obj"
  by (rule fold_cong) (simp_all add: assign_def fun_eq_iff)

lemma fold_assign_remdups_adj:
  "fold (assign g) (remdups_adj ks) obj = fold (assign g) ks obj"
  by (induction ks arbitrary: obj rule: remdups_adj.induct) (simp_all add: assign_twice)

lemma fold_assign_no_proto:
  "fold (assign g) (filter (\<lambda>k. k \<noteq> ''__proto__'') ks) obj = fold (assign g) ks obj"
  by (induction ks arbitrary: obj) (simp_all add: assign_proto)

lemma sorted_distinct_remdups_adj:
  fixes ks :: "string list"
  shows "sorted ks \<Longrightarrow> distinct (remdups_adj ks)"
  by (induction ks rule: remdups_adj.induct) (auto split: if_splits)

lemma fold_assign_sort:
  "fold (assign g) (sort ks) obj = fold (assign g) (assigned_keys (set ks)) obj"
proof -
  let ?c = "filter (\<lambda>k. k \<noteq> ''__proto__'') (remdups_adj (sort ks))"
  have "sorted ?c" by (simp add: sorted_wrt_filter)
  moreover have "distinct ?c" by (simp add: sorted_distinct_remdups_adj)
  moreover have "set ?c = set ks - {''__proto__''}" by auto
  moreover have "sorted (assigned_keys (set ks))" and "distinct (assigned_keys (set ks))"
    and "set (assigned_keys (set ks)) = set ks - {''__proto__''}"
    by (simp_all add: assigned_keys_def)
  ultimately have c: "?c = assigned_keys (set ks)"
    by (simp only: sorted_distinct_set_unique)
  have "fold (assign g) (sort ks) obj = fold (assign g) (remdups_adj (sort ks)) obj"
    by (simp only: fold_assign_remdups_adj)
  also have "\<dots> = fold (assign g) ?c obj"
    by (simp only: fold_assign_no_proto)
  finally show ?thesis
    by (simp only: c)
qed

lemma keys_fold_assign:
  "set (map fst (fold (assign g) ks obj)) =
     set (map fst obj) \<union> {k \<in> set ks. k \<noteq> ''__proto__'' \<and> g k \<noteq> None}"
proof (induction ks arbitrary: obj)
  case Nil
  then show ?case by simp
next
  case (Cons k ks)
  have "set (map fst (assign g k obj)) =
          set (map fst obj) \<union> (if k \<noteq> ''__proto__'' \<and> g k \<noteq> None then {k} else {})"
    by (cases "g k") (simp_all add: assign_def keys_obj_set del: set_map)
  then show ?case
    by (simp only: fold_simps Cons.IH) auto
qed

lemma distinct_fold_assign:
  "distinct (map fst obj) \<Longrightarrow> distinct (map fst (fold (assign g) ks obj))"
proof (induction ks arbitrary: obj)
  case Nil
  then show ?case by simp
next
  case (Cons k ks)
  have "distinct (map fst (assign g k obj))"
    using Cons.prems by (cases "g k") (simp_all add: assign_def distinct_obj_set)
  then show ?case by (simp add: Cons.IH)
qed

lemma map_of_fold_assign:
  "map_of (fold (assign g) ks obj) k =
     (if k \<in> set ks \<and> k \<noteq> ''__proto__'' \<and> g k \<noteq> None then g k else map_of obj k)"
proof (induction ks arbitrary: obj)
  case Nil
  then show ?case by simp
next
  case (Cons a ks)
  have "map_of (assign g a obj) k =
          (if k = a \<and> k \<noteq> ''__proto__'' \<and> g k \<noteq> None then g k else map_of obj k)"
    by (cases "g a") (auto simp add: assign_def map_of_obj_set)
  then show ?case
    by (simp only: fold_simps Cons.IH) auto
qed

section \<open>The object and its tree\<close>

lemma tree_of_parsed_value: "tree_of (parsed_value v) = v"
proof (induction v)
  case (JArr xs)
  then show ?case by (simp add: map_idI)
next
  case (JObj kvs)
  have "map (\<lambda>p. (fst p, tree_of (parsed_value (snd p)))) kvs = kvs"
  proof (rule map_idI)
    fix p assume p: "p \<in> set kvs"
    have "snd p \<in> Basic_BNFs.snds p" by (cases p) simp
    with p have "tree_of (parsed_value (snd p)) = snd p"
      by (rule JObj.IH)
    then show "(fst p, tree_of (parsed_value (snd p))) = p" by (cases p) simp
  qed
  then show ?case by (simp add: comp_def)
qed simp_all

lemma insert_index_map:
  "map (\<lambda>p. (fst p, f (snd p))) (insert_index k v obj) =
     insert_index k (f v) (map (\<lambda>p. (fst p, f (snd p))) obj)"
  by (induction obj) auto

lemma obj_set_map:
  "map (\<lambda>p. (fst p, f (snd p))) (obj_set k v obj) =
     obj_set k (f v) (map (\<lambda>p. (fst p, f (snd p))) obj)"
proof (cases "k = ''__proto__''")
  case True
  then show ?thesis by (simp add: obj_set_proto)
next
  case np: False
  have mem: "(k \<in> fst ` set (map (\<lambda>p. (fst p, f (snd p))) obj)) = (k \<in> fst ` set obj)"
    by force
  show ?thesis
  proof (cases "k \<in> fst ` set obj")
    case True
    then have "k \<in> fst ` set (map (\<lambda>p. (fst p, f (snd p))) obj)"
      using mem by blast
    then show ?thesis
      by (simp add: obj_set_old [OF np True] obj_set_old [OF np])
  next
    case False
    then have "k \<notin> fst ` set (map (\<lambda>p. (fst p, f (snd p))) obj)"
      using mem by blast
    then show ?thesis
      by (simp add: obj_set_new [OF np False] obj_set_new [OF np] insert_index_map)
  qed
qed

lemma assign_map:
  "map (\<lambda>p. (fst p, f (snd p))) (assign g k obj) =
     assign (\<lambda>k. map_option f (g k)) k (map (\<lambda>p. (fst p, f (snd p))) obj)"
  by (cases "g k") (simp_all add: assign_def obj_set_map)

lemma fold_assign_map:
  "map (\<lambda>p. (fst p, f (snd p))) (fold (assign g) ks obj) =
     fold (assign (\<lambda>k. map_option f (g k))) ks (map (\<lambda>p. (fst p, f (snd p))) obj)"
  by (induction ks arbitrary: obj) (simp_all add: assign_map)

lemma sortObject_object_fold:
  "sortObject_object x =
     VObj (fold (assign (\<lambda>k. map_option stored_object (js_get x k))) (sort (keys x)) [])
       (case js_get x ''__proto__'' of
          None \<Rightarrow> None
        | Some v \<Rightarrow> if typeof_object v then Some (stored_object v) else None)"
proof -
  have step: "(\<lambda>k acc. case js_get x k of None \<Rightarrow> acc
         | Some v \<Rightarrow> if typeof_object v \<and> \<not> instanceof_Array v
                     then obj_set k (sortObject_object v) acc else obj_set k (parsed_value v) acc)
        = assign (\<lambda>k. map_option stored_object (js_get x k))"
  proof (intro ext)
    fix k acc
    show "(case js_get x k of None \<Rightarrow> acc
         | Some v \<Rightarrow> if typeof_object v \<and> \<not> instanceof_Array v
                     then obj_set k (sortObject_object v) acc else obj_set k (parsed_value v) acc)
        = assign (\<lambda>k. map_option stored_object (js_get x k)) k acc"
      by (cases "js_get x k") (simp_all add: assign_def stored_object_def)
  qed
  have proto: "(case js_get x ''__proto__'' of None \<Rightarrow> None
         | Some v \<Rightarrow> if typeof_object v \<and> \<not> instanceof_Array v then Some (sortObject_object v)
                     else if instanceof_Array v then Some (parsed_value v) else None)
        = (case js_get x ''__proto__'' of None \<Rightarrow> None
           | Some v \<Rightarrow> if typeof_object v then Some (stored_object v) else None)"
  proof (cases "js_get x ''__proto__''")
    case None
    then show ?thesis by simp
  next
    case (Some v)
    then show ?thesis by (cases v) (simp_all add: stored_object_def)
  qed
  show ?thesis
    by (subst sortObject_object.simps) (simp only: step proto sortBy_key_def)
qed

lemma tree_of_sortObject_object: "tree_of (sortObject_object x) = sortObject x"
proof (induction x rule: sortObject.induct)
  case (1 x)
  let ?g = "\<lambda>k. map_option tree_of (map_option stored_object (js_get x k))"
  let ?h = "\<lambda>k. map_option stored (js_get x k)"
  have same: "?g k = ?h k" if "k \<in> set (sort (keys x))" for k
  proof (cases "js_get x k")
    case None
    then show ?thesis by simp
  next
    case (Some v)
    show ?thesis
    proof (cases "typeof_object v \<and> \<not> instanceof_Array v")
      case True
      moreover have "k \<in> set (sortBy_key (keys x))"
        using that by (simp add: sortBy_key_def)
      ultimately have "tree_of (sortObject_object v) = sortObject v"
        using "1.IH" Some by blast
      then show ?thesis
        using True Some by (simp add: stored_def stored_object_def)
    next
      case False
      then have "stored v = v" "stored_object v = parsed_value v"
        by (auto simp add: stored_def stored_object_def)
      then show ?thesis
        using Some by (simp add: tree_of_parsed_value)
    qed
  qed
  have "tree_of (sortObject_object x) = JObj (fold (assign ?g) (sort (keys x)) [])"
    by (simp only: sortObject_object_fold [of x] tree_of.simps fold_assign_map list.map)
  also have "fold (assign ?g) (sort (keys x)) [] = fold (assign ?h) (sort (keys x)) []"
    using same by (rule fold_assign_cong)
  finally show ?case
    by (simp only: sortObject_fold [of x])
qed

section \<open>Evaluation\<close>

lemmas example_simps =
  example_externals_def example_signatures_def example_body_def example_body2_def
  example_body3_def example_body4_def example_submission_def example_pairs_def
  example_toBuffer_def example_hash_def example_decode_def example_chain_def is_hex_def

lemmas eval_simps =
  sortObject_fold stored_def sortObject_object_fold stored_object_def assign_def keys_def
  js_get_def obj_set_def is_array_index_def is_digit_def index_val_def digit_val_def
  trim_def is_whitespace_def canonicalize_def as_ResponseData_def validateRequestFormat_def
  validateBasicOffChainProperties_def offChainVerifications_def fetch_all_def
  getDecodedTxEventLogs_def validateOnChainProperties_def validate_pair_def
  getDecodedLogValueByName_def strict_neq_def run_stage_def digits_of.simps

section \<open>Properties of the canonicalizer\<close>

lemma js_get_keys: "k \<in> set (keys x) \<longleftrightarrow> js_get x k \<noteq> None"
  by (simp add: keys_def js_get_def map_of_eq_None_iff)

lemma keys_sortObject:
  "sortObject x = JObj kvs \<Longrightarrow> set (map fst kvs) = set (keys x) - {''__proto__''}"
proof -
  assume "sortObject x = JObj kvs"
  then have kvs: "kvs = fold (assign (\<lambda>k. map_option stored (js_get x k))) (sort (keys x)) []"
    by (simp add: sortObject_fold)
  show ?thesis
    unfolding kvs keys_fold_assign
    by (auto simp add: js_get_keys)
qed

lemma js_get_sortObject:
  "js_get (sortObject x) k =
     (if k = ''__proto__'' then None else map_option stored (js_get x k))"
proof -
  have "js_get (sortObject x) k =
          map_of (fold (assign (\<lambda>k. map_option stored (js_get x k))) (sort (keys x)) []) k"
    by (simp add: sortObject_fold js_get_def)
  also have "\<dots> = (if k = ''__proto__'' then None else map_option stored (js_get x k))"
    unfolding map_of_fold_assign
    using js_get_keys [of k x] by auto
  finally show ?thesis .
qed

lemma stored_sortObject: "stored (sortObject v) = sortObject (sortObject v)"
  by (simp add: stored_def sortObject_fold [of v])

lemma js_key_le_trans: "js_key_le a b \<Longrightarrow> js_key_le b c \<Longrightarrow> js_key_le a c"
  by (auto simp add: js_key_le_def split: if_splits)

lemma js_key_le_index_first: "is_array_index a \<Longrightarrow> \<not> is_array_index b \<Longrightarrow> js_key_le a b"
  by (simp add: js_key_le_def)

lemma sorted_insert_index:
  assumes "is_array_index k" and "sorted_wrt js_key_le (map fst obj)"
  shows "sorted_wrt js_key_le (map fst (insert_index k v obj))"
  using assms(2)
proof (induction obj)
  case Nil
  then show ?case by simp
next
  case (Cons p ps)
  show ?case
  proof (cases "is_array_index (fst p) \<and> index_val (fst p) < index_val k")
    case True
    then have "js_key_le (fst p) k"
      using assms(1) by (simp add: js_key_le_def)
    moreover have "\<forall>x \<in> set (map fst ps). js_key_le (fst p) x"
      using Cons.prems by simp
    ultimately have "\<forall>x \<in> set (map fst (insert_index k v ps)). js_key_le (fst p) x"
      by (simp only: keys_insert_index) simp
    moreover have "sorted_wrt js_key_le (map fst (insert_index k v ps))"
      using Cons by simp
    ultimately show ?thesis
      using True by simp
  next
    case False
    then have kp: "js_key_le k (fst p)"
      using assms(1) by (auto simp add: js_key_le_def)
    have "\<forall>x \<in> set (map fst ps). js_key_le (fst p) x"
      using Cons.prems by simp
    then have "\<forall>x \<in> set (map fst ps). js_key_le k x"
      using kp js_key_le_trans by blast
    moreover have "insert_index k v (p # ps) = (k, v) # p # ps"
      using False by auto
    ultimately show ?thesis
      using kp Cons.prems by simp
  qed
qed

lemma sorted_obj_set:
  assumes "sorted_wrt js_key_le (map fst obj)"
    and "\<forall>a \<in> set (map fst obj). a \<le> k"
  shows "sorted_wrt js_key_le (map fst (obj_set k v obj))"
proof (cases "k = ''__proto__''")
  case True
  then show ?thesis using assms(1) by (simp add: obj_set_proto)
next
  case np: False
  show ?thesis
  proof (cases "k \<in> fst ` set obj")
    case True
    show ?thesis
      using assms(1) by (simp only: obj_set_old [OF np True] keys_update_same)
  next
    case new: False
    show ?thesis
    proof (cases "is_array_index k")
      case True
      then show ?thesis
        using assms(1) by (simp add: obj_set_new [OF np new] sorted_insert_index)
    next
      case False
      have "\<forall>a \<in> set (map fst obj). js_key_le a k"
        using assms(2) False by (auto simp add: js_key_le_def)
      then show ?thesis
        using assms(1) False by (simp add: obj_set_new [OF np new] sorted_wrt_append)
    qed
  qed
qed

lemma sorted_fold_assign:
  fixes ks :: "string list"
  assumes "sorted ks"
    and "sorted_wrt js_key_le (map fst obj)"
    and "\<forall>a \<in> set (map fst obj). \<forall>k \<in> set ks. a \<le> k"
  shows "sorted_wrt js_key_le (map fst (fold (assign g) ks obj))"
  using assms
proof (induction ks arbitrary: obj)
  case Nil
  then show ?case by simp
next
  case (Cons k ks)
  have s: "sorted_wrt js_key_le (map fst (assign g k obj))"
    using Cons.prems(2,3) by (cases "g k") (simp_all add: assign_def sorted_obj_set)
  have sub: "set (map fst (assign g k obj)) \<subseteq> insert k (set (map fst obj))"
    by (cases "g k") (auto simp add: assign_def keys_obj_set simp del: set_map)
  have b: "\<forall>a \<in> set (map fst (assign g k obj)). \<forall>k' \<in> set ks. a \<le> k'"
  proof (intro ballI)
    fix a k'
    assume "a \<in> set (map fst (assign g k obj))" and k': "k' \<in> set ks"
    with sub have "a = k \<or> a \<in> set (map fst obj)" by blast
    then show "a \<le> k'"
      using Cons.prems(1,3) k' by auto
  qed
  have "sorted ks" using Cons.prems(1) by simp
  from Cons.IH [OF this s b] show ?case by simp
qed

lemma sortObject_key_order:
  "sortObject x = JObj kvs \<Longrightarrow> sorted_wrt js_key_le (map fst kvs)"
proof -
  assume "sortObject x = JObj kvs"
  then have kvs: "kvs = fold (assign (\<lambda>k. map_option stored (js_get x k))) (sort (keys x)) []"
    by (simp add: sortObject_fold)
  show ?thesis
    unfolding kvs by (rule sorted_fold_assign) simp_all
qed

lemma sortObject_distinct:
  "sortObject x = JObj kvs \<Longrightarrow> distinct (map fst kvs)"
proof -
  assume "sortObject x = JObj kvs"
  then have kvs: "kvs = fold (assign (\<lambda>k. map_option stored (js_get x k))) (sort (keys x)) []"
    by (simp add: sortObject_fold)
  show ?thesis
    unfolding kvs by (rule distinct_fold_assign) simp
qed

lemma sortObject_values:
  assumes "sortObject x = JObj kvs" and "(k, w) \<in> set kvs"
  shows "\<exists>v. js_get x k = Some v \<and> w = stored v"
proof -
  have "map_of kvs k = Some w"
    using assms sortObject_distinct [OF assms(1)] by simp
  then have "js_get (sortObject x) k = Some w"
    using assms(1) by (simp add: js_get_def)
  then show ?thesis
    by (auto simp add: js_get_sortObject split: if_splits)
qed

lemma mappings_canonical_sortObject: "mappings_canonical (sortObject x)"
proof (induction x rule: sortObject.induct)
  case (1 x)
  obtain kvs where kvs: "sortObject x = JObj kvs"
    by (simp add: sortObject_fold)
  have "mappings_canonical w" if "(k, w) \<in> set kvs" for k w
  proof -
    from sortObject_values [OF kvs that] obtain v where
      v: "js_get x k = Some v" "w = stored v" by blast
    show ?thesis
    proof (cases "typeof_object v \<and> \<not> instanceof_Array v")
      case True
      moreover have "k \<in> set (sortBy_key (keys x))"
        using v(1) by (simp add: sortBy_key_def js_get_keys)
      ultimately have "mappings_canonical (sortObject v)"
        using "1.IH" v(1) by blast
      then show ?thesis using True v(2) by (simp add: stored_def)
    next
      case False
      then have "w = v" using v(2) by (auto simp add: stored_def)
      then show ?thesis using False by (cases v) simp_all
    qed
  qed
  then have "list_all (\<lambda>p. mappings_canonical (snd p)) kvs"
    by (auto simp add: list_all_iff)
  then show ?case
    using sortObject_key_order [OF kvs] by (simp add: kvs)
qed

text \<open>
  Claim C8. Canonicalization is idempotent: for every tree \<open>x\<close>, whatever its shape,
  \<open>sortObject (sortObject x)\<close> is \<open>sortObject x\<close>.
\<close>

theorem sortObject_idempotent: "sortObject (sortObject x) = sortObject x"
proof (induction x rule: sortObject.induct)
  case (1 x)
  let ?g = "\<lambda>k. map_option stored (js_get x k)"
  let ?S = "fold (assign ?g) (sort (keys x)) []"
  let ?h = "\<lambda>k. map_option stored (js_get (JObj ?S) k)"
  have S: "sortObject x = JObj ?S" by (rule sortObject_fold)
  have stored_twice: "stored (stored v) = stored v" if "js_get x k = Some v" for k v
  proof (cases "typeof_object v \<and> \<not> instanceof_Array v")
    case True
    moreover have "k \<in> set (sortBy_key (keys x))"
      using that by (simp add: sortBy_key_def js_get_keys)
    ultimately have "sortObject (sortObject v) = sortObject v"
      using "1.IH" that by blast
    then show ?thesis
      using True by (simp add: stored_def [of v] stored_sortObject)
  next
    case False
    then have "stored v = v" by (auto simp add: stored_def)
    then show ?thesis by simp
  qed
  have ks: "set (keys (JObj ?S)) = set (keys x) - {''__proto__''}"
    using keys_sortObject [OF S] by (simp add: keys_def)
  have same: "?h k = ?g k" if "k \<in> set (assigned_keys (set (keys x)))" for k
  proof -
    from that have k: "k \<in> set (keys x)" "k \<noteq> ''__proto__''"
      by (simp_all add: assigned_keys_def)
    then obtain v where v: "js_get x k = Some v"
      using js_get_keys [of k x] by auto
    have "js_get (JObj ?S) k = map_option stored (js_get x k)"
      using js_get_sortObject [of x k] k by (simp add: S)
    then show ?thesis
      using v stored_twice [OF v] by simp
  qed
  have "sortObject (JObj ?S) = JObj (fold (assign ?h) (sort (keys (JObj ?S))) [])"
    by (rule sortObject_fold)
  also have "fold (assign ?h) (sort (keys (JObj ?S))) []
               = fold (assign ?h) (assigned_keys (set (keys (JObj ?S)))) []"
    by (rule fold_assign_sort)
  also have "assigned_keys (set (keys (JObj ?S))) = assigned_keys (set (keys x))"
    by (simp add: ks assigned_keys_def)
  also have "fold (assign ?h) (assigned_keys (set (keys x))) []
               = fold (assign ?g) (assigned_keys (set (keys x))) []"
    using same by (rule fold_assign_cong)
  also have "\<dots> = ?S"
    by (rule fold_assign_sort [symmetric])
  finally show ?case
    by (simp add: S)
qed

text \<open>
  Claim C2, as the code has it. \<open>sortObject\<close> returns a mapping for every tree. Its keys are
  the own keys of the tree other than \<^verbatim>\<open>__proto__\<close>, each once, the array indices first in
  ascending numeric order and the other keys after them in ascending lexical order, and the
  same holds of every mapping reached through mappings. A value that is a mapping is
  replaced by its canonical form; a sequence, a string, a number or a boolean is stored
  unchanged, so a sequence keeps its order and its elements are not canonicalized. The
  handler canonicalizes the submission and each element of its \<open>data\<close>, in order: each
  becomes the object that \<open>sortObject\<close> builds of it, whose tree is its canonical form.
\<close>

theorem sortObject_canonical_form:
  "(\<exists>kvs. sortObject x = JObj kvs
      \<and> distinct (map fst kvs)
      \<and> set (map fst kvs) = set (keys x) - {''__proto__''}
      \<and> sorted_wrt js_key_le (map fst kvs)
      \<and> mappings_canonical (JObj kvs)
      \<and> (\<forall>k v. k \<noteq> ''__proto__'' \<and> js_get x k = Some v \<and> v \<noteq> JNull \<longrightarrow>
            map_of kvs k = Some (case v of JObj ps \<Rightarrow> sortObject v | _ \<Rightarrow> v)))
   \<and> (\<forall>skd. canonicalize body = Some skd \<longrightarrow>
         (\<exists>ds. js_get body ''data'' = Some (JArr ds) \<and> data skd = map sortObject_object ds
               \<and> map tree_of (data skd) = map sortObject ds))"
proof
  obtain kvs where kvs: "sortObject x = JObj kvs"
    by (simp add: sortObject_fold)
  have vals: "map_of kvs k = Some (case v of JObj ps \<Rightarrow> sortObject v | _ \<Rightarrow> v)"
    if "k \<noteq> ''__proto__''" "js_get x k = Some v" "v \<noteq> JNull" for k v
  proof -
    have "map_of kvs k = js_get (sortObject x) k"
      by (simp add: kvs js_get_def)
    also have "\<dots> = Some (stored v)"
      using that by (simp add: js_get_sortObject)
    also have "stored v = (case v of JObj ps \<Rightarrow> sortObject v | _ \<Rightarrow> v)"
      using that(3) by (cases v) (simp_all add: stored_def)
    finally show ?thesis .
  qed
  have "mappings_canonical (JObj kvs)"
    using mappings_canonical_sortObject [of x] by (simp only: kvs)
  then show "\<exists>kvs. sortObject x = JObj kvs
      \<and> distinct (map fst kvs)
      \<and> set (map fst kvs) = set (keys x) - {''__proto__''}
      \<and> sorted_wrt js_key_le (map fst kvs)
      \<and> mappings_canonical (JObj kvs)
      \<and> (\<forall>k v. k \<noteq> ''__proto__'' \<and> js_get x k = Some v \<and> v \<noteq> JNull \<longrightarrow>
            map_of kvs k = Some (case v of JObj ps \<Rightarrow> sortObject v | _ \<Rightarrow> v))"
    using kvs sortObject_distinct [OF kvs] keys_sortObject [OF kvs] sortObject_key_order [OF kvs]
      vals by blast
next
  show "\<forall>skd. canonicalize body = Some skd \<longrightarrow>
         (\<exists>ds. js_get body ''data'' = Some (JArr ds) \<and> data skd = map sortObject_object ds
               \<and> map tree_of (data skd) = map sortObject ds)"
  proof (intro allI impI)
    fix skd
    assume c: "canonicalize body = Some skd"
    then obtain sb where sb: "as_ResponseData (sortObject body) = Some sb"
      and skd: "data skd = map sortObject_object (data sb)"
      by (auto simp add: canonicalize_def split: option.splits)
    from sb have "js_get (sortObject body) ''data'' = Some (JArr (data sb))"
      by (auto simp add: as_ResponseData_def split: option.splits json.splits)
    then obtain v where v: "js_get body ''data'' = Some v" "stored v = JArr (data sb)"
      by (auto simp add: js_get_sortObject)
    have "v = JArr (data sb)"
    proof (cases "typeof_object v \<and> \<not> instanceof_Array v")
      case True
      then have "stored v = sortObject v" by (simp add: stored_def)
      then show ?thesis using v(2) by (simp add: sortObject_fold)
    next
      case False
      then have "stored v = v" by (auto simp add: stored_def)
      then show ?thesis using v(2) by simp
    qed
    then show "\<exists>ds. js_get body ''data'' = Some (JArr ds) \<and> data skd = map sortObject_object ds
               \<and> map tree_of (data skd) = map sortObject ds"
      using v(1) skd by (simp add: tree_of_sortObject_object comp_def)
  qed
qed

text \<open>
  Where the claim as stated fails: \<^verbatim>\<open>null\<close> becomes an empty mapping, a mapping inside a
  sequence keeps its key order, index keys are enumerated by value (\<open>9\<close> before \<open>10\<close>),
  a number at the top becomes an empty mapping, and the key \<^verbatim>\<open>__proto__\<close> is not a key of
  the result.
\<close>

theorem sortObject_counterexample:
  "sortObject (JObj [(''b'', JNull), (''a'', JArr [JObj [(''z'', JNum 1), (''y'', JNum 2)]])])
     = JObj [(''a'', JArr [JObj [(''z'', JNum 1), (''y'', JNum 2)]]), (''b'', JObj [])]
   \<and> sortObject (JObj [(''b'', JNum 1), (''10'', JNum 2), (''9'', JNum 3)])
     = JObj [(''9'', JNum 3), (''10'', JNum 2), (''b'', JNum 1)]
   \<and> ''10'' < ''9''
   \<and> sortObject (JNum 5) = JObj []
   \<and> sortObject (JObj [(''b'', JNum 1), (''__proto__'', JNum 2)]) = JObj [(''b'', JNum 1)]"
  by (simp add: eval_simps)

theorem sortObject_canonical_witness:
  "sortObject (JObj [(''b'', JNum 1), (''10'', JStr ''s''),
                     (''9'', JArr [JObj [(''z'', JNum 1), (''y'', JNum 2)]]),
                     (''a'', JObj [(''y'', JBool True), (''x'', JNum 0)])])
     = JObj [(''9'', JArr [JObj [(''z'', JNum 1), (''y'', JNum 2)]]), (''10'', JStr ''s''),
             (''a'', JObj [(''x'', JNum 0), (''y'', JBool True)]), (''b'', JNum 1)]
   \<and> sorted_wrt js_key_le [''9'', ''10'', ''a'', ''b'']
   \<and> canonicalize example_body = Some example_submission"
  using sortObject_canonical_form
    [of "JObj [(''b'', JNum 1), (''10'', JStr ''s''),
               (''9'', JArr [JObj [(''z'', JNum 1), (''y'', JNum 2)]]),
               (''a'', JObj [(''y'', JBool True), (''x'', JNum 0)])]" example_body]
  by (simp add: eval_simps example_simps js_key_le_def)

section \<open>Properties of the request shape validator\<close>

lemma trim_empty_iff: "trim s = [] \<longleftrightarrow> (\<forall>c \<in> set s. is_whitespace c)"
proof
  assume "trim s = []"
  then have "dropWhile is_whitespace (rev (dropWhile is_whitespace s)) = []"
    by (simp add: trim_def)
  then have "\<forall>c \<in> set (dropWhile is_whitespace s). is_whitespace c"
    by (simp add: dropWhile_eq_Nil_conv)
  then have "dropWhile is_whitespace s = []"
    by (metis hd_dropWhile list.set_sel(1))
  then show "\<forall>c \<in> set s. is_whitespace c"
    by (simp add: dropWhile_eq_Nil_conv)
next
  assume "\<forall>c \<in> set s. is_whitespace c"
  then have d: "dropWhile is_whitespace s = []"
    by (simp add: dropWhile_eq_Nil_conv)
  show "trim s = []"
    by (simp only: trim_def d rev.simps dropWhile.simps)
qed

lemma isNullOrWhiteSpace_non_blank: "isNullOrWhiteSpace v \<longleftrightarrow> \<not> non_blank v"
  by (cases v rule: isNullOrWhiteSpace.cases) (simp_all add: trim_empty_iff)

lemma not_nonempty_Array_iff: "not_nonempty_Array v \<longleftrightarrow> \<not> non_empty_sequence v"
  by (cases v rule: not_nonempty_Array.cases) simp_all

lemma validateRequestFormat_rules:
  "validateRequestFormat body =
     map (\<lambda>k. \<lparr>key = k, message = ''TODO''\<rparr>)
       (filter (\<lambda>k. \<not> shape_rule k body)
          [''token'', ''subject'', ''data'', ''packedData'', ''signature''])"
  by (simp add: validateRequestFormat_def shape_rule_def Let_def
      isNullOrWhiteSpace_non_blank not_nonempty_Array_iff)

lemma receive_format_errors:
  "validateRequestFormat body \<noteq> [] \<Longrightarrow>
   receive ext completion body =
     \<lparr>response = Some (400, Errors (validateRequestFormat body)), stages = [RequestFormat]\<rparr>"
  by (simp add: receive_def run_stage_def)

text \<open>
  Claim C5. The shape validator checks the five rules one after the other, none depending
  on another, and returns one error for each rule that is violated, in the order \<open>token\<close>,
  \<open>subject\<close>, \<open>data\<close>, \<open>packedData\<close>, \<open>signature\<close>. When the list is not empty the
  handler answers 400 with that list and no other stage runs, whatever the external
  functions are.
\<close>

theorem shape_validator_all_rules:
  "validateRequestFormat body =
     map (\<lambda>k. \<lparr>key = k, message = ''TODO''\<rparr>)
       (filter (\<lambda>k. \<not> shape_rule k body)
          [''token'', ''subject'', ''data'', ''packedData'', ''signature''])
   \<and> (validateRequestFormat body \<noteq> [] \<longrightarrow>
        receive ext completion body =
          \<lparr>response = Some (400, Errors (validateRequestFormat body)),
           stages = [RequestFormat]\<rparr>)"
  using validateRequestFormat_rules receive_format_errors by blast

theorem shape_validator_witness:
  "validateRequestFormat
     (JObj [(''token'', JStr '' ''), (''subject'', JStr ''0xA1''), (''data'', JArr []),
            (''signature'', JNum 7)])
   = [\<lparr>key = ''token'', message = ''TODO''\<rparr>, \<lparr>key = ''data'', message = ''TODO''\<rparr>,
      \<lparr>key = ''packedData'', message = ''TODO''\<rparr>, \<lparr>key = ''signature'', message = ''TODO''\<rparr>]
   \<and> receive example_externals [0]
       (JObj [(''token'', JStr '' ''), (''subject'', JStr ''0xA1''), (''data'', JArr []),
              (''signature'', JNum 7)])
     = \<lparr>response = Some (400, Errors
           [\<lparr>key = ''token'', message = ''TODO''\<rparr>, \<lparr>key = ''data'', message = ''TODO''\<rparr>,
            \<lparr>key = ''packedData'', message = ''TODO''\<rparr>,
            \<lparr>key = ''signature'', message = ''TODO''\<rparr>]),
         stages = [RequestFormat]\<rparr>"
  using shape_validator_all_rules
    [of "JObj [(''token'', JStr '' ''), (''subject'', JStr ''0xA1''), (''data'', JArr []),
               (''signature'', JNum 7)]" example_externals "[0]"]
  by (simp add: shape_rule_def js_get_def is_whitespace_def)

lemma field_error_iff:
  assumes "f \<in> {''token'', ''subject'', ''packedData'', ''signature''}"
  shows "filter (\<lambda>e. key e = f) (validateRequestFormat body) =
           (if isNullOrWhiteSpace (js_get body f) then [\<lparr>key = f, message = ''TODO''\<rparr>] else [])"
  using assms by (auto simp add: validateRequestFormat_def Let_def)

text \<open>
  Claim C10. A \<open>token\<close>, \<open>subject\<close>, \<open>packedData\<close> or \<open>signature\<close> that is present and is
  not a string counts as blank: the validator returns exactly one error for it. A field
  for which it returns no error is a string, and not a blank one.
\<close>

theorem non_string_field_is_blank:
  assumes "f \<in> {''token'', ''subject'', ''packedData'', ''signature''}"
  shows "(js_get body f = Some v \<and> (\<forall>s. v \<noteq> JStr s) \<longrightarrow>
            isNullOrWhiteSpace (js_get body f)
            \<and> filter (\<lambda>e. key e = f) (validateRequestFormat body)
                = [\<lparr>key = f, message = ''TODO''\<rparr>])
       \<and> (filter (\<lambda>e. key e = f) (validateRequestFormat body) = [] \<longrightarrow>
            (\<exists>s. js_get body f = Some (JStr s) \<and> trim s \<noteq> []))"
proof -
  have blank: "isNullOrWhiteSpace (Some v)" if "\<forall>s. v \<noteq> JStr s" for v
    using that by (cases v) simp_all
  have str: "\<exists>s. w = Some (JStr s) \<and> trim s \<noteq> []" if "\<not> isNullOrWhiteSpace w" for w
    using that by (cases w rule: isNullOrWhiteSpace.cases) simp_all
  show ?thesis
    using blank str by (auto simp add: field_error_iff [OF assms])
qed

theorem non_string_field_witness:
  "js_get (JObj [(''token'', JNum 5), (''subject'', JStr ''0xA1'')]) ''token'' = Some (JNum 5)
   \<and> isNullOrWhiteSpace (js_get (JObj [(''token'', JNum 5), (''subject'', JStr ''0xA1'')]) ''token'')
   \<and> filter (\<lambda>e. key e = ''token'')
         (validateRequestFormat (JObj [(''token'', JNum 5), (''subject'', JStr ''0xA1'')]))
       = [\<lparr>key = ''token'', message = ''TODO''\<rparr>]
   \<and> filter (\<lambda>e. key e = ''subject'')
         (validateRequestFormat (JObj [(''token'', JNum 5), (''subject'', JStr ''0xA1'')]))
       = []"
  using non_string_field_is_blank
    [of "''token''" "JObj [(''token'', JNum 5), (''subject'', JStr ''0xA1'')]" "JNum 5"]
  by (simp add: js_get_def validateRequestFormat_def trim_def is_whitespace_def)

section \<open>Properties of the off-chain identity validator\<close>

lemma basic_checks:
  "validateBasicOffChainProperties ext s =
     (case toBuffer ext (packedData s) of
        None \<Rightarrow> None
      | Some buffer \<Rightarrow>
         (case recoverHashSigner ext buffer (signature s) of
            None \<Rightarrow> None
          | Some signer \<Rightarrow>
              Some ((if subject s \<noteq> signer
                     then [\<lparr>key = ''subject'', message = ''TODO''\<rparr>] else [])
                    @ (if ''0x'' @ keccak256 ext (JSON_stringify ext
                           (JObj [(''data'', JArr (map tree_of (data s))),
                                  (''token'', JStr (token s))])) \<noteq> packedData s
                       then [\<lparr>key = ''packedData'', message = ''TODO''\<rparr>] else []))))"
  by (simp add: validateBasicOffChainProperties_def Let_def split: option.splits)

lemma basic_returned:
  assumes "validateBasicOffChainProperties ext s = Some errs"
  shows "((\<exists>e \<in> set errs. key e = ''packedData'')
           \<longleftrightarrow> ''0x'' @ keccak256 ext (JSON_stringify ext
                 (JObj [(''data'', JArr (map tree_of (data s))),
                        (''token'', JStr (token s))])) \<noteq> packedData s)
         \<and> length errs \<le> 2"
  using assms by (auto simp add: basic_checks split: option.splits if_splits)

text \<open>
  Claim C4, as the code has it. The validator decodes \<open>packedData\<close> and recovers the signer
  first, and either call may throw: then the validator throws, the hash check is not
  evaluated and no list is returned. When both calls return, its result is the outcome of
  the signer check followed by the outcome of the hash check, each evaluated whatever the
  other gives; the hash is recomputed as \<open>0x\<close> followed by the keccak-256 of the JSON
  encoding of the object with the field \<open>data\<close>, then the field \<open>token\<close>; an error keyed
  \<open>packedData\<close> is there exactly when the recomputed value differs from the claimed
  \<open>packedData\<close>, and the list has at most two entries.
\<close>

theorem offchain_identity_checks:
  "validateBasicOffChainProperties ext s =
     (case toBuffer ext (packedData s) of
        None \<Rightarrow> None
      | Some buffer \<Rightarrow>
         (case recoverHashSigner ext buffer (signature s) of
            None \<Rightarrow> None
          | Some signer \<Rightarrow>
              Some ((if subject s \<noteq> signer
                     then [\<lparr>key = ''subject'', message = ''TODO''\<rparr>] else [])
                    @ (if ''0x'' @ keccak256 ext (JSON_stringify ext
                           (JObj [(''data'', JArr (map tree_of (data s))),
                                  (''token'', JStr (token s))])) \<noteq> packedData s
                       then [\<lparr>key = ''packedData'', message = ''TODO''\<rparr>] else []))))
   \<and> (\<forall>errs. validateBasicOffChainProperties ext s = Some errs \<longrightarrow>
         ((\<exists>e \<in> set errs. key e = ''packedData'')
            \<longleftrightarrow> ''0x'' @ keccak256 ext (JSON_stringify ext
                  (JObj [(''data'', JArr (map tree_of (data s))),
                         (''token'', JStr (token s))])) \<noteq> packedData s)
         \<and> length errs \<le> 2)"
  using basic_checks basic_returned by blast

text \<open>
  Where the claim as stated fails: a signature that the recovery does not take makes it
  throw. The submission's \<open>packedData\<close> differs from the recomputed hash, and no error
  keyed \<open>packedData\<close> is returned, since nothing is.
\<close>

theorem offchain_identity_counterexample:
  "validateBasicOffChainProperties example_externals
     (example_submission\<lparr>packedData := ''0x70'', signature := ''0x51''\<rparr>) = None
   \<and> ''0x'' @ keccak256 example_externals (JSON_stringify example_externals
        (JObj [(''data'', JArr (map tree_of (data example_submission))),
               (''token'', JStr (token example_submission))])) = ''0x69''"
  by (simp add: eval_simps example_simps)

theorem offchain_identity_witness:
  "validateBasicOffChainProperties example_externals
     (example_submission\<lparr>subject := ''0xB9'', packedData := ''0x70''\<rparr>)
   = Some [\<lparr>key = ''subject'', message = ''TODO''\<rparr>, \<lparr>key = ''packedData'', message = ''TODO''\<rparr>]"
  using offchain_identity_checks
    [of example_externals "example_submission\<lparr>subject := ''0xB9'', packedData := ''0x70''\<rparr>"]
  by (simp add: eval_simps example_simps)

lemma one_byte_changed_neq: "one_byte_changed a b \<Longrightarrow> a \<noteq> b"
proof
  assume c: "one_byte_changed a b" and "a = b"
  have "filter (\<lambda>(x, y). x \<noteq> y) (zip b b) = []"
    by (auto simp add: filter_empty_conv set_zip)
  with c \<open>a = b\<close> show False
    by (simp add: one_byte_changed_def)
qed

text \<open>
  Claim C1, as the code has it. Take a submission that passes both checks and change one
  byte of its \<open>packedData\<close>. The signer check is made again, on the changed \<open>packedData\<close>.
  When the decoding or the recovery throws on it, the validator throws and returns
  nothing. Otherwise the hash check gives an error keyed \<open>packedData\<close>, and the signer
  check gives no error exactly when the address recovered from the changed \<open>packedData\<close>
  and the signature is still the subject, and an error keyed \<open>subject\<close> otherwise.
\<close>

theorem mutated_packedData_checks:
  assumes "validateBasicOffChainProperties ext s = Some []"
    and "one_byte_changed (packedData s) pd"
  shows "validateBasicOffChainProperties ext (s\<lparr>packedData := pd\<rparr>) =
           (case toBuffer ext pd of
              None \<Rightarrow> None
            | Some buffer \<Rightarrow>
               (case recoverHashSigner ext buffer (signature s) of
                  None \<Rightarrow> None
                | Some signer \<Rightarrow>
                    Some ((if subject s \<noteq> signer
                           then [\<lparr>key = ''subject'', message = ''TODO''\<rparr>] else [])
                          @ [\<lparr>key = ''packedData'', message = ''TODO''\<rparr>])))"
proof -
  from assms(1) have "''0x'' @ keccak256 ext (JSON_stringify ext
        (JObj [(''data'', JArr (map tree_of (data s))), (''token'', JStr (token s))]))
        = packedData s"
    by (simp add: basic_checks split: option.splits if_splits)
  moreover have "packedData s \<noteq> pd"
    using assms(2) by (rule one_byte_changed_neq)
  ultimately show ?thesis
    by (simp add: basic_checks split: option.splits)
qed

text \<open>
  Where the claim as stated fails. The signer is recovered from \<open>packedData\<close>, so a changed
  byte changes what the signer check sees: a submission that passes both checks gets both
  errors, or none when the changed byte is no hex digit and the decoding throws. And a
  valid signature alone is not enough for the hash check to fail afterwards: a submission
  signed over a \<open>packedData\<close> that is one byte off the recomputed hash fails the hash check
  before the change and passes it after.
\<close>

theorem mutated_packedData_counterexample:
  "validateBasicOffChainProperties example_externals example_submission = Some []
   \<and> one_byte_changed ''0x69'' ''0x68''
   \<and> validateBasicOffChainProperties example_externals
       (example_submission\<lparr>packedData := ''0x68''\<rparr>)
     = Some [\<lparr>key = ''subject'', message = ''TODO''\<rparr>,
             \<lparr>key = ''packedData'', message = ''TODO''\<rparr>]
   \<and> one_byte_changed ''0x69'' ''0x6g''
   \<and> validateBasicOffChainProperties example_externals
       (example_submission\<lparr>packedData := ''0x6g''\<rparr>) = None
   \<and> validateBasicOffChainProperties example_externals
       (example_submission\<lparr>packedData := ''0x68'', signature := ''0x7a3c''\<rparr>)
     = Some [\<lparr>key = ''packedData'', message = ''TODO''\<rparr>]
   \<and> one_byte_changed ''0x68'' ''0x69''
   \<and> validateBasicOffChainProperties example_externals
       (example_submission\<lparr>signature := ''0x7a3c''\<rparr>)
     = Some [\<lparr>key = ''subject'', message = ''TODO''\<rparr>]"
  by (simp add: eval_simps example_simps one_byte_changed_def)

theorem mutated_packedData_witness:
  "validateBasicOffChainProperties example_externals
     (example_submission\<lparr>packedData := ''0x68''\<rparr>)
   = Some [\<lparr>key = ''subject'', message = ''TODO''\<rparr>,
           \<lparr>key = ''packedData'', message = ''TODO''\<rparr>]"
proof -
  have passes: "validateBasicOffChainProperties example_externals example_submission = Some []"
    by (simp add: eval_simps example_simps)
  have changed: "one_byte_changed (packedData example_submission) ''0x68''"
    by (simp add: one_byte_changed_def example_submission_def)
  from mutated_packedData_checks [OF passes changed] show ?thesis
    by (simp add: example_simps)
qed

section \<open>Properties of the on-chain cross-validator\<close>

lemma validate_pair_append:
  "validate_pair subj dl errs = errs @ validate_pair subj dl []"
  by (simp add: validate_pair_def Let_def split: option.splits)

lemma fold_validate_pair:
  "fold (validate_pair subj) ps errs = errs @ concat (map (\<lambda>dl. validate_pair subj dl []) ps)"
proof (induction ps arbitrary: errs)
  case Nil
  then show ?case by simp
next
  case (Cons p ps)
  have "fold (validate_pair subj) (p # ps) errs = fold (validate_pair subj) ps (validate_pair subj p errs)"
    by simp
  also have "\<dots> = validate_pair subj p errs @ concat (map (\<lambda>dl. validate_pair subj dl []) ps)"
    by (rule Cons.IH)
  also have "validate_pair subj p errs = errs @ validate_pair subj p []"
    by (rule validate_pair_append)
  finally show ?case by simp
qed

lemma validateOnChainProperties_concat:
  "validateOnChainProperties subj ps = concat (map (\<lambda>dl. validate_pair subj dl []) ps)"
  by (simp add: validateOnChainProperties_def fold_validate_pair)






lemma validate_pair_no_TraitAttested:
  "\<forall>l \<in> set (logs dl). log_name l \<noteq> ''TraitAttested'' \<Longrightarrow>
   validate_pair subj dl [] = [\<lparr>key = ''TraitAttested'', message = ''TODO''\<rparr>]"
proof -
  assume "\<forall>l \<in> set (logs dl). log_name l \<noteq> ''TraitAttested''"
  then have "find (\<lambda>l. log_name l = ''TraitAttested'') (logs dl) = None"
    by (simp add: find_None_iff)
  then show ?thesis by (simp add: validate_pair_def)
qed

text \<open>
  Claim C6. A pair whose logs hold no log named \<open>TraitAttested\<close> contributes exactly one
  error, keyed \<open>TraitAttested\<close>, whatever its record and the subject are (no comparison is
  made for it), and the pairs before and after it are validated as they are without it.
\<close>

theorem missing_TraitAttested_one_error:
  assumes "\<forall>l \<in> set (logs dl). log_name l \<noteq> ''TraitAttested''"
  shows "validateOnChainProperties subj (before @ dl # after) =
           validateOnChainProperties subj before
           @ [\<lparr>key = ''TraitAttested'', message = ''TODO''\<rparr>]
           @ validateOnChainProperties subj after"
  using validate_pair_no_TraitAttested [OF assms]
  by (simp add: validateOnChainProperties_concat)

theorem missing_TraitAttested_witness:
  "validateOnChainProperties ''0xA1''
     (example_pairs
      @ \<lparr>shareData = VObj [(''attester'', VStr ''0xB2'')] None,
          logs = [\<lparr>log_address = ''0xC0'', log_name = ''Transfer'', log_events = []\<rparr>]\<rparr>
      # [\<lparr>shareData = VObj [(''attester'', VStr ''0xB2''), (''layer2Hash'', VStr ''0xEE'')] None,
           logs = logs (hd example_pairs)\<rparr>])
   = [\<lparr>key = ''TraitAttested'', message = ''TODO''\<rparr>,
      \<lparr>key = ''layer2Hash'', message = ''TODO''\<rparr>]"
proof -
  have none:
    "\<forall>l \<in> set (logs \<lparr>shareData = VObj [(''attester'', VStr ''0xB2'')] None,
                       logs = [\<lparr>log_address = ''0xC0'', log_name = ''Transfer'',
                                log_events = []\<rparr>]\<rparr>).
       log_name l \<noteq> ''TraitAttested''"
    by simp
  from missing_TraitAttested_one_error [OF none] show ?thesis
    by (simp add: eval_simps example_simps)
qed

section \<open>Properties of the request handler\<close>

lemma not_blank_is_string:
  "\<not> isNullOrWhiteSpace w \<Longrightarrow> \<exists>s. w = Some (JStr s) \<and> trim s \<noteq> []"
  by (cases w rule: isNullOrWhiteSpace.cases) simp_all

lemma nonempty_Array_is_array:
  "\<not> not_nonempty_Array w \<Longrightarrow> \<exists>xs. w = Some (JArr xs) \<and> xs \<noteq> []"
  by (cases w rule: not_nonempty_Array.cases) simp_all

lemma validateRequestFormat_Nil_iff:
  "validateRequestFormat body = [] \<longleftrightarrow>
     \<not> isNullOrWhiteSpace (js_get body ''token'') \<and> \<not> isNullOrWhiteSpace (js_get body ''subject'')
     \<and> \<not> not_nonempty_Array (js_get body ''data'')
     \<and> \<not> isNullOrWhiteSpace (js_get body ''packedData'')
     \<and> \<not> isNullOrWhiteSpace (js_get body ''signature'')"
  by (simp add: validateRequestFormat_def Let_def)

lemma canonicalize_valid:
  assumes "validateRequestFormat body = []"
  shows "\<exists>t s ds p g.
           js_get body ''token'' = Some (JStr t) \<and> js_get body ''subject'' = Some (JStr s)
           \<and> js_get body ''data'' = Some (JArr ds) \<and> ds \<noteq> []
           \<and> js_get body ''packedData'' = Some (JStr p)
           \<and> js_get body ''signature'' = Some (JStr g)
           \<and> canonicalize body =
               Some \<lparr>token = t, subject = s, data = map sortObject_object ds, packedData = p,
                     signature = g\<rparr>"
proof -
  from assms obtain t s ds p g where
    f: "js_get body ''token'' = Some (JStr t)" "js_get body ''subject'' = Some (JStr s)"
       "js_get body ''data'' = Some (JArr ds)" "ds \<noteq> []"
       "js_get body ''packedData'' = Some (JStr p)" "js_get body ''signature'' = Some (JStr g)"
    unfolding validateRequestFormat_Nil_iff
    by (blast dest: not_blank_is_string nonempty_Array_is_array)
  have "as_ResponseData (sortObject body) =
          Some \<lparr>token = t, subject = s, data = ds, packedData = p, signature = g\<rparr>"
    by (simp add: as_ResponseData_def js_get_sortObject f stored_def)
  then have "canonicalize body =
          Some \<lparr>token = t, subject = s, data = map sortObject_object ds, packedData = p,
                signature = g\<rparr>"
    by (simp add: canonicalize_def)
  with f show ?thesis by blast
qed

lemma those_Some_iff: "those xs = Some ys \<longleftrightarrow> xs = map Some ys"
proof (induction xs arbitrary: ys)
  case Nil
  then show ?case by auto
next
  case (Cons x xs)
  then show ?case by (cases x; cases ys) (auto split: option.splits)
qed


lemma offChainVerifications_accept:
  assumes "\<forall>d \<in> set ds. verifyOffChainDataIntegrity ext d = Some []"
  shows "\<exists>rs. offChainVerifications ext ds = Some rs \<and> list_all (\<lambda>v. errors v = []) rs"
proof -
  have "map (\<lambda>d. case verifyOffChainDataIntegrity ext d of
                        None \<Rightarrow> None
                      | Some errs \<Rightarrow>
                          Some \<lparr>layer2Hash = get_property d ''layer2Hash'', errors = errs\<rparr>) ds
        = map Some (map (\<lambda>d. \<lparr>layer2Hash = get_property d ''layer2Hash'', errors = []\<rparr>) ds)"
    using assms by simp
  then have "offChainVerifications ext ds =
               Some (map (\<lambda>d. \<lparr>layer2Hash = get_property d ''layer2Hash'', errors = []\<rparr>) ds)"
    by (simp only: offChainVerifications_def those_Some_iff)
  then show ?thesis
    by (simp add: list_all_iff)
qed





text \<open>
  A record may name its \<open>attester\<close> through \<^verbatim>\<open>__proto__\<close>: the sorted record has no such
  property of its own, the read follows the prototype, and the request is accepted.
\<close>

lemma inherited_attester_accepted:
  "receive example_externals [0] example_body3 =
     \<lparr>response = Some (200, Success (Some (JStr ''t-3''))),
      stages = [RequestFormat, Canonicalize, BasicOffChain, OffChainIntegrity, FetchLogs,
                OnChain]\<rparr>"
  by (simp add: receive_def eval_simps example_simps)




text \<open>
  Claim C9. A submission that passes every stage is answered with status 200 and the body
  \<^verbatim>\<open>{success: true, token}\<close>, where \<open>token\<close> is read from the request body as it was
  submitted: the token string itself.
\<close>

theorem accepted_with_original_token:
  assumes "validateRequestFormat body = []"
    and "canonicalize body = Some skd"
    and "validateBasicOffChainProperties ext skd = Some []"
    and "\<forall>d \<in> set (data skd). verifyOffChainDataIntegrity ext d = Some []"
    and "fetch_all ext completion (data skd) = Some pairs"
    and "validateOnChainProperties (subject skd) pairs = []"
  shows "receive ext completion body =
           \<lparr>response = Some (200, Success (js_get body ''token'')),
            stages = [RequestFormat, Canonicalize, BasicOffChain, OffChainIntegrity,
                      FetchLogs, OnChain]\<rparr>
         \<and> js_get body ''token'' = Some (JStr (token skd))"
proof -
  from canonicalize_valid [OF assms(1)] assms(2)
  have "js_get body ''token'' = Some (JStr (token skd))" by auto
  moreover from offChainVerifications_accept [OF assms(4)] obtain rs where
    "offChainVerifications ext (data skd) = Some rs" "list_all (\<lambda>v. errors v = []) rs"
    by blast
  then have "receive ext completion body =
           \<lparr>response = Some (200, Success (js_get body ''token'')),
            stages = [RequestFormat, Canonicalize, BasicOffChain, OffChainIntegrity,
                      FetchLogs, OnChain]\<rparr>"
    using assms by (simp add: receive_def run_stage_def)
  ultimately show ?thesis by simp
qed

theorem accepted_witness:
  "receive example_externals [0] example_body =
     \<lparr>response = Some (200, Success (Some (JStr ''t-1''))),
      stages = [RequestFormat, Canonicalize, BasicOffChain, OffChainIntegrity, FetchLogs,
                OnChain]\<rparr>"
proof -
  have shape: "validateRequestFormat example_body = []"
    by (simp add: eval_simps example_simps)
  have canonical: "canonicalize example_body = Some example_submission"
    by (simp add: eval_simps example_simps)
  have basic: "validateBasicOffChainProperties example_externals example_submission = Some []"
    by (simp add: eval_simps example_simps)
  have records:
    "\<forall>d \<in> set (data example_submission).
       verifyOffChainDataIntegrity example_externals d = Some []"
    by (simp add: example_simps)
  have fetched: "fetch_all example_externals [0] (data example_submission) = Some example_pairs"
    by (simp add: eval_simps example_simps)
  have chain: "validateOnChainProperties (subject example_submission) example_pairs = []"
    by (simp add: eval_simps example_simps)
  from accepted_with_original_token [OF shape canonical basic records fetched chain]
  show ?thesis
    by (simp add: example_submission_def)
qed

text \<open>
  Claim C3, at a request with two records: the transaction of the first has no
  \<open>TraitAttested\<close> log, the log of the second names another attester. When the fetches
  complete in the order of \<open>data\<close> the errors stand in that order; when the second fetch
  completes first they stand in the opposite order.
\<close>

theorem onchain_errors_in_completion_order:
  "receive example_externals [0, 1] example_body2 =
     \<lparr>response = Some (400, Errors [\<lparr>key = ''TraitAttested'', message = ''TODO''\<rparr>,
                                     \<lparr>key = ''attester'', message = ''TODO''\<rparr>]),
      stages = [RequestFormat, Canonicalize, BasicOffChain, OffChainIntegrity, FetchLogs,
                OnChain]\<rparr>
   \<and> receive example_externals [1, 0] example_body2 =
     \<lparr>response = Some (400, Errors [\<lparr>key = ''attester'', message = ''TODO''\<rparr>,
                                     \<lparr>key = ''TraitAttested'', message = ''TODO''\<rparr>]),
      stages = [RequestFormat, Canonicalize, BasicOffChain, OffChainIntegrity, FetchLogs,
                OnChain]\<rparr>"
  by (simp add: receive_def eval_simps example_simps)

end
